theory Spec2Isabelle
  imports Main
begin

section \<open>Python values and the builtins the dispatcher uses\<close>

text \<open>
  The dispatcher (\<^verbatim>\<open>scripts/dispatcher_json_stream.py\<close>) works on the values that
  \<^verbatim>\<open>json.loads\<close> and \<^verbatim>\<open>yaml.safe_load\<close> return. A dictionary is an association list
  in insertion order with string keys (the source annotates \<^verbatim>\<open>dict[str, Any]\<close>); a finite
  float is the pair mantissa and exponent of its value \<open>m * 2 ^ e\<close>. Strings are lists of
  characters read as code points.
\<close>

datatype pyval =
    PNone
  | PBool bool
  | PInt int
  | PFloat int int
  | PStr string
  | PList "pyval list"
  | PDict "(string \<times> pyval) list"

datatype error = AttributeError | TypeError | ValueError | OSError | YAMLError

text \<open>
  A call either blocks forever, or raises, or returns.
\<close>

datatype 'a outcome = Hangs | Raises error | Returns 'a

text \<open>Truth value testing, as \<^verbatim>\<open>if v:\<close> and \<^verbatim>\<open>v or d\<close> do it.\<close>

fun truthy :: "pyval \<Rightarrow> bool" where
  "truthy PNone = False"
| "truthy (PBool b) = b"
| "truthy (PInt i) = (i \<noteq> 0)"
| "truthy (PFloat m e) = (m \<noteq> 0)"
| "truthy (PStr s) = (s \<noteq> [])"
| "truthy (PList xs) = (xs \<noteq> [])"
| "truthy (PDict kvs) = (kvs \<noteq> [])"

text \<open>\<^verbatim>\<open>d.get(key, default)\<close>: only a dictionary has the method.\<close>

fun py_get :: "pyval \<Rightarrow> string \<Rightarrow> pyval \<Rightarrow> error + pyval" where
  "py_get (PDict kvs) k d = Inr (case map_of kvs k of Some v \<Rightarrow> v | None \<Rightarrow> d)"
| "py_get v k d = Inl AttributeError"

text \<open>
  \<^verbatim>\<open>str.strip()\<close> removes leading and trailing whitespace: the characters
  \<^verbatim>\<open>\t \n \x0b \x0c \r \x1c \x1d \x1e \x1f\<close>, the space, and the code points
  \<^verbatim>\<open>\x85\<close> and \<^verbatim>\<open>\xa0\<close>.
\<close>

definition py_isspace :: "char \<Rightarrow> bool" where
  "py_isspace c =
     (c \<in> set [CHR 0x09, CHR 0x0A, CHR 0x0B, CHR 0x0C, CHR 0x0D, CHR 0x1C, CHR 0x1D,
                CHR 0x1E, CHR 0x1F, CHR 0x20, CHR 0x85, CHR 0xA0])"

definition strip :: "string \<Rightarrow> string" where
  "strip s = rev (dropWhile py_isspace (rev (dropWhile py_isspace s)))"

text \<open>\<^verbatim>\<open>(item.get("text") or "").strip()\<close>: a truthy value that is no string has no
  \<^verbatim>\<open>strip\<close> method.\<close>

definition text_or_empty :: "pyval \<Rightarrow> error + string" where
  "text_or_empty item =
     (case py_get item ''text'' PNone of
        Inl e \<Rightarrow> Inl e
      | Inr v \<Rightarrow>
          (if truthy v
           then (case v of PStr s \<Rightarrow> Inr (strip s) | _ \<Rightarrow> Inl AttributeError)
           else Inr []))"

definition ANSI_GREEN :: string where
  "ANSI_GREEN = [CHR 0x1B] @ ''[32m''"

definition ANSI_BLUE :: string where
  "ANSI_BLUE = [CHR 0x1B] @ ''[34m''"

definition ANSI_RESET :: string where
  "ANSI_RESET = [CHR 0x1B] @ ''[0m''"

definition MAX_REVIEW_ROUNDS :: int where
  "MAX_REVIEW_ROUNDS = 3"

definition nl :: string where
  "nl = [CHR 0x0A]"

section \<open>The event renderer\<close>

definition build_command :: "string \<Rightarrow> string list" where
  "build_command prompt =
     [''codex'', ''exec'', ''--json'', ''-s'', ''danger-full-access'', prompt]"

text \<open>
  \<open>format_event\<close> takes Python's \<^verbatim>\<open>str()\<close> of a decoded value, which an f-string
  applies to each field it interpolates, as the parameter \<open>fmt\<close>.
\<close>

definition format_started :: "(pyval \<Rightarrow> string) \<Rightarrow> pyval \<Rightarrow> error + (string \<times> string)" where
  "format_started fmt payload =
     (case py_get payload ''item'' (PDict []) of
        Inl e \<Rightarrow> Inl e
      | Inr item \<Rightarrow>
          (case py_get item ''type'' (PStr ''unknown'') of
             Inl e \<Rightarrow> Inl e
           | Inr item_type \<Rightarrow>
               (case py_get item ''command'' PNone of
                  Inl e \<Rightarrow> Inl e
                | Inr cmd \<Rightarrow>
                    (if item_type = PStr ''command_execution'' \<and> truthy cmd
                     then Inr (''[command.start] '' @ fmt cmd, ''default'')
                     else Inr (''[item.start] '' @ fmt item_type, ''default'')))))"

definition format_completed :: "(pyval \<Rightarrow> string) \<Rightarrow> pyval \<Rightarrow> error + (string \<times> string)" where
  "format_completed fmt payload =
     (case py_get payload ''item'' (PDict []) of
        Inl e \<Rightarrow> Inl e
      | Inr item \<Rightarrow>
          (case py_get item ''type'' (PStr ''unknown'') of
             Inl e \<Rightarrow> Inl e
           | Inr item_type \<Rightarrow>
               (if item_type = PStr ''command_execution''
                then (case py_get item ''exit_code'' PNone of
                        Inl e \<Rightarrow> Inl e
                      | Inr exit_code \<Rightarrow> Inr (''[command.done] exit='' @ fmt exit_code, ''default''))
                else if item_type = PStr ''reasoning''
                then (case text_or_empty item of
                        Inl e \<Rightarrow> Inl e
                      | Inr text \<Rightarrow>
                          (if text \<noteq> [] then Inr (''[reasoning] '' @ text, ''reasoning'')
                           else Inr (''[reasoning]'', ''reasoning'')))
                else if item_type = PStr ''agent_message''
                then (case text_or_empty item of
                        Inl e \<Rightarrow> Inl e
                      | Inr text \<Rightarrow>
                          (if text \<noteq> [] then Inr (''[agent] '' @ text, ''agent'')
                           else Inr (''[agent]'', ''agent'')))
                else Inr (''[item.done] '' @ fmt item_type, ''default''))))"

definition format_turn :: "(pyval \<Rightarrow> string) \<Rightarrow> pyval \<Rightarrow> error + (string \<times> string)" where
  "format_turn fmt payload =
     (case py_get payload ''usage'' (PDict []) of
        Inl e \<Rightarrow> Inl e
      | Inr usage \<Rightarrow>
          (case py_get usage ''input_tokens'' PNone of
             Inl e \<Rightarrow> Inl e
           | Inr input_tokens \<Rightarrow>
               (case py_get usage ''output_tokens'' PNone of
                  Inl e \<Rightarrow> Inl e
                | Inr output_tokens \<Rightarrow>
                    Inr (''[turn.done] input_tokens='' @ fmt input_tokens
                           @ '' output_tokens='' @ fmt output_tokens, ''default''))))"

definition format_event :: "(pyval \<Rightarrow> string) \<Rightarrow> pyval \<Rightarrow> error + (string \<times> string)" where
  "format_event fmt payload =
     (case py_get payload ''type'' (PStr ''unknown'') of
        Inl e \<Rightarrow> Inl e
      | Inr event_type \<Rightarrow>
          (if event_type = PStr ''item.started'' then format_started fmt payload
           else if event_type = PStr ''item.completed'' then format_completed fmt payload
           else if event_type = PStr ''turn.completed'' then format_turn fmt payload
           else Inr (''[event] '' @ fmt event_type, ''default'')))"

definition colorize :: "string \<Rightarrow> string \<Rightarrow> string" where
  "colorize text tag =
     (if tag = ''agent'' then ANSI_GREEN @ text @ ANSI_RESET
      else if tag = ''reasoning'' then ANSI_BLUE @ text @ ANSI_RESET
      else text)"

text \<open>The agent-message text that \<open>render_line\<close> extracts from a decoded payload.\<close>

definition agent_text_of :: "pyval \<Rightarrow> error + string option" where
  "agent_text_of payload =
     (case py_get payload ''type'' PNone of
        Inl e \<Rightarrow> Inl e
      | Inr ty \<Rightarrow>
          (if ty = PStr ''item.completed''
           then (case py_get payload ''item'' (PDict []) of
                   Inl e \<Rightarrow> Inl e
                 | Inr item \<Rightarrow>
                     (case py_get item ''type'' PNone of
                        Inl e \<Rightarrow> Inl e
                      | Inr ity \<Rightarrow>
                          (if ity = PStr ''agent_message''
                           then (case text_or_empty item of
                                   Inl e \<Rightarrow> Inl e
                                 | Inr text \<Rightarrow> Inr (Some text))
                           else Inr None)))
           else Inr None))"

text \<open>
  \<open>render_line\<close> takes \<^verbatim>\<open>json.loads\<close> as the parameter \<open>loads\<close>: \<open>None\<close> is its
  \<^verbatim>\<open>JSONDecodeError\<close>, the only exception the source catches.
\<close>

definition render_line ::
  "(string \<Rightarrow> pyval option) \<Rightarrow> (pyval \<Rightarrow> string) \<Rightarrow> string
     \<Rightarrow> error + (string \<times> string \<times> string option)" where
  "render_line loads fmt line =
     (let stripped = strip line in
      if stripped = [] then Inr ([], ''default'', None)
      else (case loads stripped of
              None \<Rightarrow> Inr (stripped, ''default'', None)
            | Some payload \<Rightarrow>
                (case format_event fmt payload of
                   Inl e \<Rightarrow> Inl e
                 | Inr (formatted, tag) \<Rightarrow>
                     (case agent_text_of payload of
                        Inl e \<Rightarrow> Inl e
                      | Inr agent_text \<Rightarrow> Inr (formatted, tag, agent_text)))))"

section \<open>The process stream multiplexer\<close>

text \<open>
  What the outside world does is an input of the model. Launching the external binary
  either fails with \<^verbatim>\<open>FileNotFoundError\<close> (carrying the exception's message) or starts
  a process. A started process is the sequence of results of the \<^verbatim>\<open>readline\<close> calls the
  selector loop makes, in arrival order, each with the handle that was ready, the line
  read (the empty string at end of stream) and the timestamp \<^verbatim>\<open>time.strftime\<close> gives
  when the line is handled; and the exit status \<^verbatim>\<open>proc.wait()\<close> returns. When the
  sequence ends while a handle is still registered, \<^verbatim>\<open>selector.select()\<close> blocks forever.
\<close>

datatype handle = Stdout | Stderr

datatype launch =
    FileNotFound string
  | Spawned "(handle \<times> string \<times> string) list" int

text \<open>
  What was done, in order: a write to a sink, a call of \<open>run_codex\<close> with its prompt,
  task and role, a read of the task-state file, a status that \<open>task_status\<close> returned
  for a task, and a notification payload handed to the notifier.
\<close>

datatype action =
    Write handle string
  | Codex string "string option" "string option"
  | Load string
  | Status string "string option"
  | IMessage string

text \<open>
  The source's \<open>stream_process\<close> is annotated to return a pair, and returns a bare
  integer on its \<^verbatim>\<open>FileNotFoundError\<close> path.
\<close>

datatype ret = Bare int | Pair int "string option"

definition output_line :: "string option \<Rightarrow> string \<Rightarrow> string \<Rightarrow> string \<Rightarrow> string" where
  "output_line prefix timestamp formatted tag =
     (case prefix of
        Some p \<Rightarrow>
          (if p \<noteq> [] then p @ '' ['' @ timestamp @ ''] '' @ colorize formatted tag @ nl
           else ''['' @ timestamp @ ''] '' @ colorize formatted tag @ nl)
      | None \<Rightarrow> ''['' @ timestamp @ ''] '' @ colorize formatted tag @ nl)"

text \<open>
  The \<^verbatim>\<open>while selector.get_map()\<close> loop: \<open>regs\<close> are the registered handles and
  \<open>lastmsg\<close> is \<open>last_agent_message\<close>. The selector reports registered handles only.
\<close>

fun drain ::
  "(string \<Rightarrow> pyval option) \<Rightarrow> (pyval \<Rightarrow> string) \<Rightarrow> string option \<Rightarrow> handle list
     \<Rightarrow> string option \<Rightarrow> (handle \<times> string \<times> string) list
     \<Rightarrow> string option outcome \<times> action list" where
  "drain loads fmt prefix regs lastmsg [] = (if regs = [] then Returns lastmsg else Hangs, [])"
| "drain loads fmt prefix regs lastmsg ((h, line, timestamp) # evs) =
     (if regs = [] then (Returns lastmsg, [])
      else if h \<notin> set regs then drain loads fmt prefix regs lastmsg evs
      else if line = [] then drain loads fmt prefix (removeAll h regs) lastmsg evs
      else (case render_line loads fmt line of
              Inl e \<Rightarrow> (Raises e, [])
            | Inr (formatted, tag, agent_text) \<Rightarrow>
                (if formatted = [] then drain loads fmt prefix regs lastmsg evs
                 else (case drain loads fmt prefix regs
                              (case agent_text of
                                 Some t \<Rightarrow> if t \<noteq> [] then Some t else lastmsg
                               | None \<Rightarrow> lastmsg) evs of
                         (r, ws) \<Rightarrow>
                           (r, Write h (output_line prefix timestamp formatted tag) # ws)))))"

definition stream_process ::
  "(string \<Rightarrow> pyval option) \<Rightarrow> (pyval \<Rightarrow> string) \<Rightarrow> launch \<Rightarrow> string option
     \<Rightarrow> ret outcome \<times> action list" where
  "stream_process loads fmt proc prefix =
     (case proc of
        FileNotFound exc \<Rightarrow>
          (Returns (Bare 127),
           [Write Stderr (''Required binary not found: '' @ exc
                            @ ''. Ensure codex is installed.'' @ nl)])
      | Spawned evs status \<Rightarrow>
          (case drain loads fmt prefix [Stdout, Stderr] None evs of
             (Returns lastmsg, ws) \<Rightarrow> (Returns (Pair status lastmsg), ws)
           | (Raises e, ws) \<Rightarrow> (Raises e, ws)
           | (Hangs, ws) \<Rightarrow> (Hangs, ws)))"

section \<open>Status lookups, prompts and notifications\<close>

text \<open>
  The environment of a run: the builtins \<^verbatim>\<open>json.loads\<close> and \<^verbatim>\<open>str\<close>, the working directory,
  whether the notifier script exists and its path, the behaviour of the \<open>n\<close>-th process
  launched, and what the \<open>n\<close>-th \<^verbatim>\<open>open\<close> and \<^verbatim>\<open>yaml.safe_load\<close> of the task-state file
  gives (the file is rewritten by the external processes between reads).
\<close>

record env =
  json_loads :: "string \<Rightarrow> pyval option"
  py_str :: "pyval \<Rightarrow> string"
  cwd :: string
  imessage_script :: string
  imessage_found :: bool
  procs :: "nat \<Rightarrow> launch"
  files :: "nat \<Rightarrow> error + pyval"

record st =
  launched :: nat
  loaded :: nat
  trace :: "action list"

definition emit :: "action list \<Rightarrow> st \<Rightarrow> st" where
  "emit as s = s\<lparr>trace := trace s @ as\<rparr>"

definition print_out :: "string \<Rightarrow> st \<Rightarrow> st" where
  "print_out text s = emit [Write Stdout (text @ nl)] s"

definition print_err :: "string \<Rightarrow> st \<Rightarrow> st" where
  "print_err text s = emit [Write Stderr (text @ nl)] s"

definition load_tasks_state :: "env \<Rightarrow> string \<Rightarrow> st \<Rightarrow> pyval outcome \<times> st" where
  "load_tasks_state E path s =
     (let s' = (emit [Load path] s)\<lparr>loaded := Suc (loaded s)\<rparr> in
      case files E (loaded s) of
        Inl e \<Rightarrow> (Raises e, s')
      | Inr v \<Rightarrow>
          (let data = (if truthy v then v else PDict []) in
           case data of
             PDict kvs \<Rightarrow> (Returns data, s')
           | _ \<Rightarrow> (Raises ValueError, s')))"

definition task_ids_from_state :: "env \<Rightarrow> string \<Rightarrow> st \<Rightarrow> string list outcome \<times> st" where
  "task_ids_from_state E path s =
     (case load_tasks_state E path s of
        (Returns data, s') \<Rightarrow>
          (case data of
             PDict kvs \<Rightarrow> (Returns (filter (\<lambda>key. key \<noteq> ''schema_version'') (map fst kvs)), s')
           | _ \<Rightarrow> (Raises AttributeError, s'))
      | (Raises e, s') \<Rightarrow> (Raises e, s')
      | (Hangs, s') \<Rightarrow> (Hangs, s'))"

definition status_of :: "pyval \<Rightarrow> string \<Rightarrow> string option" where
  "status_of data task_id =
     (case data of
        PDict kvs \<Rightarrow>
          (case map_of kvs task_id of
             Some (PDict entry) \<Rightarrow>
               (case map_of entry ''status'' of
                  Some (PStr status) \<Rightarrow> Some status
                | _ \<Rightarrow> None)
           | _ \<Rightarrow> None)
      | _ \<Rightarrow> None)"

definition task_status :: "env \<Rightarrow> string \<Rightarrow> string \<Rightarrow> st \<Rightarrow> string option outcome \<times> st" where
  "task_status E path task_id s =
     (case load_tasks_state E path s of
        (Returns data, s') \<Rightarrow>
          (Returns (status_of data task_id), emit [Status task_id (status_of data task_id)] s')
      | (Raises e, s') \<Rightarrow> (Raises e, s')
      | (Hangs, s') \<Rightarrow> (Hangs, s'))"

definition executor_base :: "string \<Rightarrow> string \<Rightarrow> string" where
  "executor_base repo_path task_id =
     ''You are the executor agent. Read and follow your role definition ''
       @ [CHR 0x27] @ ''agents/roles/executor.md'' @ [CHR 0x27] @ ''. Work on task '' @ task_id
       @ ''. Repo path: '' @ repo_path @ ''.''"

definition build_executor_prompt :: "string \<Rightarrow> string \<Rightarrow> string option \<Rightarrow> string" where
  "build_executor_prompt repo_path task_id feedback =
     (case feedback of
        Some f \<Rightarrow>
          (if f \<noteq> [] then executor_base repo_path task_id @ nl @ ''Reviewer feedback:'' @ nl @ f
           else executor_base repo_path task_id)
      | None \<Rightarrow> executor_base repo_path task_id)"

definition build_reviewer_prompt :: "string \<Rightarrow> string \<Rightarrow> string option \<Rightarrow> string" where
  "build_reviewer_prompt repo_path task_id summary =
     ''You are the reviewer agent. Read and follow your role definition ''
       @ [CHR 0x27] @ ''agents/roles/reviewer.md'' @ [CHR 0x27] @ ''. Review task '' @ task_id
       @ ''. Repo path: '' @ repo_path @ ''.'' @ nl
       @ ''Here are the summaries from the executor agent:'' @ nl
       @ (case summary of
            Some t \<Rightarrow> if t \<noteq> [] then t else ''No executor summary captured.''
          | None \<Rightarrow> ''No executor summary captured.'')"

text \<open>\<^verbatim>\<open>' '.join(command)\<close>.\<close>

fun join_spaces :: "string list \<Rightarrow> string" where
  "join_spaces [] = []"
| "join_spaces [x] = x"
| "join_spaces (x # y # ys) = x @ '' '' @ join_spaces (y # ys)"

definition nonempty :: "string option \<Rightarrow> bool" where
  "nonempty x = (case x of Some t \<Rightarrow> t \<noteq> [] | None \<Rightarrow> False)"

definition codex_prefix :: "string option \<Rightarrow> string option \<Rightarrow> string option" where
  "codex_prefix task_id role =
     (if nonempty task_id \<and> nonempty role
      then Some (''['' @ the task_id @ ''][''  @ the role @ '']'')
      else if nonempty task_id then Some (''['' @ the task_id @ '']'')
      else if nonempty role then Some (''['' @ the role @ '']'')
      else None)"

definition run_codex ::
  "env \<Rightarrow> string \<Rightarrow> string option \<Rightarrow> string option \<Rightarrow> st \<Rightarrow> ret outcome \<times> st" where
  "run_codex E prompt task_id role s =
     (let command = build_command prompt;
          s1 = print_out (''Running: '' @ join_spaces command) (emit [Codex prompt task_id role] s)
      in case stream_process (json_loads E) (py_str E) (procs E (launched s1)) (codex_prefix task_id role) of
           (r, ws) \<Rightarrow> (r, (emit ws s1)\<lparr>launched := Suc (launched s1)\<rparr>))"

text \<open>The payload of a notification: an absent or empty status shows as \<^verbatim>\<open>unknown\<close>.\<close>

definition notification :: "string \<Rightarrow> string \<Rightarrow> string option \<Rightarrow> string option \<Rightarrow> string" where
  "notification role task_id status response =
     (let message_status = (if nonempty status then the status else ''unknown'');
          response_text = (if nonempty response then the response else ''No agent response captured.'')
      in ''['' @ role @ ''] ['' @ task_id @ ''] ('' @ message_status @ ''): '' @ response_text)"

definition send_imessage ::
  "env \<Rightarrow> string \<Rightarrow> string \<Rightarrow> string option \<Rightarrow> string option \<Rightarrow> st \<Rightarrow> st" where
  "send_imessage E role task_id status response s =
     (let payload = notification role task_id status response
      in if imessage_found E then emit [IMessage payload] s
         else print_err (''Warning: '' @ imessage_script E @ '' not found; skipping iMessage send.'')
                (emit [IMessage payload] s))"

section \<open>The task scheduler\<close>

text \<open>
  One pass through the body of the \<^verbatim>\<open>while rounds < max_rounds\<close> loop ends in
  \<^verbatim>\<open>break\<close>, in \<^verbatim>\<open>return code\<close>, or in \<^verbatim>\<open>continue\<close> with the new reviewer feedback
  (and \<open>rounds\<close> one higher).
\<close>

datatype step = Break | Return int | Continue string

definition shown :: "string option \<Rightarrow> string" where
  "shown status = (case status of Some t \<Rightarrow> t | None \<Rightarrow> ''None'')"

text \<open>Lines 243 to 275: the reviewer half of the loop body.\<close>

definition review_round ::
  "env \<Rightarrow> string \<Rightarrow> int \<Rightarrow> string \<Rightarrow> int \<Rightarrow> string option \<Rightarrow> st \<Rightarrow> step outcome \<times> st" where
  "review_round E tasks_state_path max_rounds task_id rounds executor_summary s =
     (case run_codex E (build_reviewer_prompt (cwd E) task_id executor_summary)
             (Some task_id) (Some ''reviewer'') s of
        (Hangs, s1) \<Rightarrow> (Hangs, s1)
      | (Raises e, s1) \<Rightarrow> (Raises e, s1)
      | (Returns (Bare n), s1) \<Rightarrow> (Raises TypeError, s1)
      | (Returns (Pair exit_code reviewer_summary), s1) \<Rightarrow>
          (if exit_code \<noteq> 0
           then (Returns (Return exit_code),
                 print_err (''Interrupted: reviewer exited with code '' @ py_str E (PInt exit_code)) s1)
           else (case task_status E tasks_state_path task_id s1 of
                   (Hangs, s2) \<Rightarrow> (Hangs, s2)
                 | (Raises e, s2) \<Rightarrow> (Raises e, s2)
                 | (Returns status, s2) \<Rightarrow>
                     (let s3 = send_imessage E ''reviewer'' task_id status reviewer_summary s2 in
                      if status = Some ''done''
                      then (Returns Break, print_out (''Task '' @ task_id @ '' completed.'') s3)
                      else if status = Some ''request_changes''
                      then (if rounds + 1 \<ge> max_rounds
                            then (Returns (Return 1),
                                  print_err (''Interrupted: task '' @ task_id @ '' exceeded ''
                                               @ py_str E (PInt max_rounds) @ '' review rounds.'') s3)
                            else (Returns (Continue (if nonempty reviewer_summary
                                                     then the reviewer_summary
                                                     else ''No reviewer summary captured.'')),
                                  print_out (''Task '' @ task_id
                                               @ '' requested changes; restarting executor (round ''
                                               @ py_str E (PInt (rounds + 1 + 1)) @ '').'') s3))
                      else (Returns (Return 1),
                            print_err (''Interrupted: task '' @ task_id @ '' status is '' @ [CHR 0x27]
                                         @ shown status @ [CHR 0x27] @ '', expected '' @ [CHR 0x27]
                                         @ ''done'' @ [CHR 0x27] @ '' or '' @ [CHR 0x27]
                                         @ ''request_changes'' @ [CHR 0x27] @ ''.'') s3)))))"

text \<open>Lines 224 to 241, then the reviewer half.\<close>

definition one_round ::
  "env \<Rightarrow> string \<Rightarrow> int \<Rightarrow> string \<Rightarrow> int \<Rightarrow> string option \<Rightarrow> st \<Rightarrow> step outcome \<times> st" where
  "one_round E tasks_state_path max_rounds task_id rounds reviewer_feedback s =
     (case run_codex E (build_executor_prompt (cwd E) task_id reviewer_feedback)
             (Some task_id) (Some ''executor'') s of
        (Hangs, s1) \<Rightarrow> (Hangs, s1)
      | (Raises e, s1) \<Rightarrow> (Raises e, s1)
      | (Returns (Bare n), s1) \<Rightarrow> (Raises TypeError, s1)
      | (Returns (Pair exit_code executor_summary), s1) \<Rightarrow>
          (if exit_code \<noteq> 0
           then (Returns (Return exit_code),
                 print_err (''Interrupted: executor exited with code '' @ py_str E (PInt exit_code)) s1)
           else (case task_status E tasks_state_path task_id s1 of
                   (Hangs, s2) \<Rightarrow> (Hangs, s2)
                 | (Raises e, s2) \<Rightarrow> (Raises e, s2)
                 | (Returns status, s2) \<Rightarrow>
                     (let s3 = send_imessage E ''executor'' task_id status executor_summary s2 in
                      if status \<noteq> Some ''ready_for_review''
                      then (Returns (Return 1),
                            print_err (''Interrupted: task '' @ task_id @ '' status is '' @ [CHR 0x27]
                                         @ shown status @ [CHR 0x27] @ '', expected '' @ [CHR 0x27]
                                         @ ''ready_for_review'' @ [CHR 0x27] @ ''.'') s3)
                      else review_round E tasks_state_path max_rounds task_id rounds
                             executor_summary s3))))"

text \<open>
  The \<^verbatim>\<open>while\<close> loop of one task: \<open>None\<close> when the loop is left by \<^verbatim>\<open>break\<close> or by its
  condition, \<open>Some code\<close> when the body returns from \<open>run_scheduler\<close>.
\<close>

function task_loop ::
  "env \<Rightarrow> string \<Rightarrow> int \<Rightarrow> string \<Rightarrow> int \<Rightarrow> string option \<Rightarrow> st \<Rightarrow> int option outcome \<times> st" where
  "task_loop E tasks_state_path max_rounds task_id rounds reviewer_feedback s =
     (if rounds < max_rounds
      then (case one_round E tasks_state_path max_rounds task_id rounds reviewer_feedback s of
              (Hangs, s') \<Rightarrow> (Hangs, s')
            | (Raises e, s') \<Rightarrow> (Raises e, s')
            | (Returns Break, s') \<Rightarrow> (Returns None, s')
            | (Returns (Return code), s') \<Rightarrow> (Returns (Some code), s')
            | (Returns (Continue feedback), s') \<Rightarrow>
                task_loop E tasks_state_path max_rounds task_id (rounds + 1) (Some feedback) s')
      else (Returns None, s))"
  by pat_completeness auto
termination
  by (relation "measure (\<lambda>(E, p, max_rounds, t, rounds, f, s). nat (max_rounds - rounds))") auto

text \<open>The \<^verbatim>\<open>for task_id in task_ids\<close> loop.\<close>

fun run_tasks :: "env \<Rightarrow> string \<Rightarrow> int \<Rightarrow> string list \<Rightarrow> st \<Rightarrow> int outcome \<times> st" where
  "run_tasks E tasks_state_path max_rounds [] s = (Returns 0, s)"
| "run_tasks E tasks_state_path max_rounds (task_id # rest) s =
     (case task_loop E tasks_state_path max_rounds task_id 0 None
             (print_out (''Starting task '' @ task_id) s) of
        (Hangs, s') \<Rightarrow> (Hangs, s')
      | (Raises e, s') \<Rightarrow> (Raises e, s')
      | (Returns (Some code), s') \<Rightarrow> (Returns code, s')
      | (Returns None, s') \<Rightarrow> run_tasks E tasks_state_path max_rounds rest s')"

text \<open>
  The rest of a run from the head of the \<^verbatim>\<open>while\<close> loop of \<open>task_id\<close>, with
  \<open>rest\<close> the tasks after it: \<open>run_tasks\<close> enters it with \<open>rounds = 0\<close> and no
  feedback, and every \<^verbatim>\<open>continue\<close> re-enters it.
\<close>

definition run_from ::
  "env \<Rightarrow> string \<Rightarrow> int \<Rightarrow> string \<Rightarrow> string list \<Rightarrow> int \<Rightarrow> string option \<Rightarrow> st
     \<Rightarrow> int outcome \<times> st" where
  "run_from E tasks_state_path max_rounds task_id rest rounds reviewer_feedback s =
     (case task_loop E tasks_state_path max_rounds task_id rounds reviewer_feedback s of
        (Hangs, s') \<Rightarrow> (Hangs, s')
      | (Raises e, s') \<Rightarrow> (Raises e, s')
      | (Returns (Some code), s') \<Rightarrow> (Returns code, s')
      | (Returns None, s') \<Rightarrow> run_tasks E tasks_state_path max_rounds rest s')"

definition run_scheduler :: "env \<Rightarrow> string list \<Rightarrow> string \<Rightarrow> int \<Rightarrow> st \<Rightarrow> int outcome \<times> st" where
  "run_scheduler E task_ids tasks_state_path max_rounds s =
     run_tasks E tasks_state_path max_rounds task_ids s"

section \<open>The command line\<close>

record args =
  prompt :: string
  tasks :: "string list option"
  all_pending :: bool
  tasks_state :: string
  max_rounds_arg :: int

text \<open>The list comprehension of \<open>main\<close> that keeps the tasks whose status is not
  \<^verbatim>\<open>"done"\<close>; every test reads the file again.\<close>

fun not_done :: "env \<Rightarrow> string \<Rightarrow> string list \<Rightarrow> st \<Rightarrow> string list outcome \<times> st" where
  "not_done E path [] s = (Returns [], s)"
| "not_done E path (task_id # rest) s =
     (case task_status E path task_id s of
        (Hangs, s1) \<Rightarrow> (Hangs, s1)
      | (Raises e, s1) \<Rightarrow> (Raises e, s1)
      | (Returns status, s1) \<Rightarrow>
          (case not_done E path rest s1 of
             (Hangs, s2) \<Rightarrow> (Hangs, s2)
           | (Raises e, s2) \<Rightarrow> (Raises e, s2)
           | (Returns kept, s2) \<Rightarrow>
               (Returns (if status \<noteq> Some ''done'' then task_id # kept else kept), s2)))"

definition all_task_ids :: "env \<Rightarrow> string \<Rightarrow> st \<Rightarrow> string list outcome \<times> st" where
  "all_task_ids E path s =
     (case task_ids_from_state E path s of
        (Hangs, s1) \<Rightarrow> (Hangs, s1)
      | (Raises e, s1) \<Rightarrow> (Raises e, s1)
      | (Returns ordered_ids, s1) \<Rightarrow> not_done E path ordered_ids s1)"

definition scheduled :: "env \<Rightarrow> args \<Rightarrow> string list \<Rightarrow> st \<Rightarrow> int outcome \<times> st" where
  "scheduled E a task_ids s =
     (if task_ids = [] then (Returns 0, print_out ''No tasks to run.'' s)
      else run_scheduler E task_ids (tasks_state a) (max_rounds_arg a) s)"

definition given :: "string list option \<Rightarrow> string list" where
  "given ts = (case ts of Some xs \<Rightarrow> xs | None \<Rightarrow> [])"

definition main :: "env \<Rightarrow> args \<Rightarrow> st \<Rightarrow> int outcome \<times> st" where
  "main E a s =
     (if all_pending a \<and> given (tasks a) \<noteq> []
      then (Returns 2, print_err ''Error: Use --all or --tasks, not both.'' s)
      else if all_pending a \<or> given (tasks a) \<noteq> []
      then (if all_pending a
            then (case all_task_ids E (tasks_state a) s of
                    (Hangs, s1) \<Rightarrow> (Hangs, s1)
                  | (Raises e, s1) \<Rightarrow> (Raises e, s1)
                  | (Returns task_ids, s1) \<Rightarrow> scheduled E a task_ids s1)
            else scheduled E a (given (tasks a)) s)
      else (case run_codex E (prompt a) None None s of
              (Hangs, s1) \<Rightarrow> (Hangs, s1)
            | (Raises e, s1) \<Rightarrow> (Raises e, s1)
            | (Returns (Bare n), s1) \<Rightarrow> (Raises TypeError, s1)
            | (Returns (Pair exit_code x), s1) \<Rightarrow> (Returns exit_code, s1)))"

definition start :: st where
  "start = \<lparr>launched = 0, loaded = 0, trace = []\<rparr>"

section \<open>Sample inputs\<close>

text \<open>
  Concrete inputs at which the theorems below are instantiated. \<open>str_scalar\<close> is
  Python's \<^verbatim>\<open>str\<close> on \<^verbatim>\<open>None\<close>, booleans, integers and strings, and \<open>sample_loads\<close> is
  \<^verbatim>\<open>json.loads\<close> on the lines the samples contain.
\<close>

fun digits :: "nat \<Rightarrow> string" where
  "digits n =
     (if n < 10 then [''0123456789'' ! n] else digits (n div 10) @ [''0123456789'' ! (n mod 10)])"

definition str_scalar :: "pyval \<Rightarrow> string" where
  "str_scalar v =
     (case v of
        PNone \<Rightarrow> ''None''
      | PBool b \<Rightarrow> (if b then ''True'' else ''False'')
      | PInt i \<Rightarrow> (if i < 0 then ''-'' @ digits (nat (- i)) else digits (nat i))
      | PStr s \<Rightarrow> s
      | _ \<Rightarrow> [])"

definition dq :: string where
  "dq = [CHR 0x22]"

definition agent_record :: "string \<Rightarrow> pyval" where
  "agent_record t =
     PDict [(''type'', PStr ''item.completed''),
            (''item'', PDict [(''type'', PStr ''agent_message''), (''text'', PStr t)])]"

text \<open>The line \<^verbatim>\<open>{"type": "item.completed", "item": {"type": "agent_message", "text": "t"}}\<close>.\<close>

definition agent_line :: "string \<Rightarrow> string" where
  "agent_line t =
     ''{'' @ dq @ ''type'' @ dq @ '': '' @ dq @ ''item.completed'' @ dq @ '', ''
       @ dq @ ''item'' @ dq @ '': {'' @ dq @ ''type'' @ dq @ '': '' @ dq @ ''agent_message'' @ dq
       @ '', '' @ dq @ ''text'' @ dq @ '': '' @ dq @ t @ dq @ ''}}'' @ nl"

definition sample_loads :: "string \<Rightarrow> pyval option" where
  "sample_loads s =
     (if s = strip (agent_line ''hello'') then Some (agent_record ''hello'')
      else if s = strip (agent_line []) then Some (agent_record [])
      else if s = ''42'' then Some (PInt 42)
      else None)"

definition sample_env :: "(nat \<Rightarrow> launch) \<Rightarrow> (nat \<Rightarrow> error + pyval) \<Rightarrow> env" where
  "sample_env ps fs =
     \<lparr>json_loads = sample_loads, py_str = str_scalar, cwd = ''/repo'',
      imessage_script = ''scripts/send_imessage.sh'', imessage_found = True,
      procs = ps, files = fs\<rparr>"

text \<open>A process that prints nothing and exits with the given status.\<close>

definition quiet :: "int \<Rightarrow> launch" where
  "quiet code = Spawned [(Stdout, [], ''2026-01-01 00:00:00''), (Stderr, [], ''2026-01-01 00:00:00'')] code"

text \<open>A task-state file with the marker key and one status per task.\<close>

definition registry :: "(string \<times> string) list \<Rightarrow> error + pyval" where
  "registry ts =
     Inr (PDict ((''schema_version'', PInt 1)
                   # map (\<lambda>(task_id, status). (task_id, PDict [(''status'', PStr status)])) ts))"

section \<open>Observations on a stream session\<close>

text \<open>The texts written to one sink, in order.\<close>

fun written :: "handle \<Rightarrow> action list \<Rightarrow> string list" where
  "written h [] = []"
| "written h (Write h' text # as) = (if h' = h then text # written h as else written h as)"
| "written h (a # as) = written h as"

text \<open>The lines that arrive on one handle, up to its end of stream.\<close>

definition arrived :: "handle \<Rightarrow> (handle \<times> string \<times> string) list \<Rightarrow> (handle \<times> string \<times> string) list" where
  "arrived h evs = takeWhile (\<lambda>ev. fst (snd ev) \<noteq> []) (filter (\<lambda>ev. fst ev = h) evs)"

text \<open>The lines of both handles in arrival order, each handle up to its end of stream.\<close>

fun seen :: "handle list \<Rightarrow> (handle \<times> string \<times> string) list \<Rightarrow> (handle \<times> string \<times> string) list" where
  "seen regs [] = []"
| "seen regs ((h, line, timestamp) # evs) =
     (if h \<notin> set regs then seen regs evs
      else if line = [] then seen (removeAll h regs) evs
      else (h, line, timestamp) # seen regs evs)"

text \<open>What one line puts on its sink: nothing when it renders as the empty text.\<close>

definition rendered ::
  "(string \<Rightarrow> pyval option) \<Rightarrow> (pyval \<Rightarrow> string) \<Rightarrow> string option
     \<Rightarrow> handle \<times> string \<times> string \<Rightarrow> string option" where
  "rendered loads fmt prefix ev =
     (case render_line loads fmt (fst (snd ev)) of
        Inr (formatted, tag, agent_text) \<Rightarrow>
          (if formatted = [] then None
           else Some (output_line prefix (snd (snd ev)) formatted tag))
      | Inl e \<Rightarrow> None)"

text \<open>The agent-message text that the renderer extracts from one line, if any.\<close>

definition extracted ::
  "(string \<Rightarrow> pyval option) \<Rightarrow> (pyval \<Rightarrow> string) \<Rightarrow> handle \<times> string \<times> string \<Rightarrow> string option" where
  "extracted loads fmt ev =
     (case render_line loads fmt (fst (snd ev)) of
        Inr (formatted, tag, agent_text) \<Rightarrow> agent_text
      | Inl e \<Rightarrow> None)"

definition last_nonempty :: "string list \<Rightarrow> string option" where
  "last_nonempty ts = (case filter (\<lambda>t. t \<noteq> []) ts of [] \<Rightarrow> None | x # xs \<Rightarrow> Some (last (x # xs)))"

text \<open>A session with two agent messages, the second one with an empty text.\<close>

definition two_messages :: "(handle \<times> string \<times> string) list" where
  "two_messages =
     [(Stdout, agent_line ''hello'', ''2026-01-01 00:00:00''),
      (Stdout, agent_line [], ''2026-01-01 00:00:01''),
      (Stderr, [], ''2026-01-01 00:00:02''),
      (Stdout, [], ''2026-01-01 00:00:02'')]"

text \<open>A session whose two handles interleave, with a blank line on the error handle.\<close>

definition interleaved :: "(handle \<times> string \<times> string) list" where
  "interleaved =
     [(Stderr, ''warn 1'' @ nl, ''2026-01-01 00:00:00''),
      (Stdout, agent_line ''hello'', ''2026-01-01 00:00:01''),
      (Stderr, nl, ''2026-01-01 00:00:02''),
      (Stderr, ''warn 2'' @ nl, ''2026-01-01 00:00:03''),
      (Stdout, [], ''2026-01-01 00:00:04''),
      (Stderr, [], ''2026-01-01 00:00:04'')]"

section \<open>Observations on a scheduler run\<close>

text \<open>What the \<open>n\<close>-th process launched makes \<open>stream_process\<close> return.\<close>

definition round_exit :: "env \<Rightarrow> nat \<Rightarrow> ret outcome" where
  "round_exit E n = fst (stream_process (json_loads E) (py_str E) (procs E n) None)"

text \<open>What \<open>task_status\<close> returns for a task on the \<open>n\<close>-th read of the task-state file.\<close>

definition status_at :: "env \<Rightarrow> nat \<Rightarrow> string \<Rightarrow> string option outcome" where
  "status_at E n task_id =
     (case files E n of
        Inl e \<Rightarrow> Raises e
      | Inr v \<Rightarrow>
          (case (if truthy v then v else PDict []) of
             PDict kvs \<Rightarrow> Returns (status_of (PDict kvs) task_id)
           | _ \<Rightarrow> Raises ValueError))"

text \<open>The trace without the writes to the two sinks.\<close>

fun is_write :: "action \<Rightarrow> bool" where
  "is_write (Write h text) = True"
| "is_write a = False"

definition calls :: "action list \<Rightarrow> action list" where
  "calls as = filter (\<lambda>a. \<not> is_write a) as"

text \<open>The rounds of one role that were run for a task.\<close>

fun is_round :: "string \<Rightarrow> string \<Rightarrow> action \<Rightarrow> bool" where
  "is_round role task_id (Codex p t r) = (t = Some task_id \<and> r = Some role)"
| "is_round role task_id a = False"

definition rounds_of :: "string \<Rightarrow> string \<Rightarrow> action list \<Rightarrow> action list" where
  "rounds_of role task_id as = filter (is_round role task_id) as"

text \<open>Every task of the list runs to the end of its loop without returning from
  \<open>run_scheduler\<close>, each from the state the one before left.\<close>

fun completes_all :: "env \<Rightarrow> string \<Rightarrow> int \<Rightarrow> string list \<Rightarrow> st \<Rightarrow> bool" where
  "completes_all E tasks_state_path max_rounds [] s = True"
| "completes_all E tasks_state_path max_rounds (task_id # rest) s =
     (case task_loop E tasks_state_path max_rounds task_id 0 None
             (print_out (''Starting task '' @ task_id) s) of
        (Returns None, s') \<Rightarrow> completes_all E tasks_state_path max_rounds rest s'
      | (Returns (Some code), s') \<Rightarrow> False
      | (Raises e, s') \<Rightarrow> False
      | (Hangs, s') \<Rightarrow> False)"

text \<open>An environment whose task-state file alternates between two contents.\<close>

definition alternating :: "(string \<times> string) list \<Rightarrow> (string \<times> string) list \<Rightarrow> env" where
  "alternating after_executor after_reviewer =
     sample_env (\<lambda>n. quiet 0)
       (\<lambda>n. if even n then registry after_executor else registry after_reviewer)"

text \<open>
  A scan of a trace for the feedback rule. The phase remembers whether the last round
  was a reviewer round of a task (\<open>Reviewed\<close>) and whether the status read right after
  it, for the same task, was \<^verbatim>\<open>request_changes\<close> (\<open>Changes\<close>). An executor round passes
  when its prompt is the one without feedback or the phase is \<open>Changes\<close> of its task;
  the scan gives \<open>None\<close> at the first executor round that does not pass.
\<close>

datatype phase = Idle | Reviewed string | Changes string

fun feedback_scan :: "string \<Rightarrow> phase \<Rightarrow> action list \<Rightarrow> phase option" where
  "feedback_scan repo q [] = Some q"
| "feedback_scan repo q (Codex p t r # as) =
     (case t of
        None \<Rightarrow> feedback_scan repo Idle as
      | Some task_id \<Rightarrow>
          (if r = Some ''executor''
           then (if p = build_executor_prompt repo task_id None \<or> q = Changes task_id
                 then feedback_scan repo Idle as else None)
           else if r = Some ''reviewer'' then feedback_scan repo (Reviewed task_id) as
           else feedback_scan repo Idle as))"
| "feedback_scan repo q (Status task_id v # as) =
     feedback_scan repo
       (if q = Reviewed task_id \<and> v = Some ''request_changes'' then Changes task_id else Idle) as"
| "feedback_scan repo q (Write h text # as) = feedback_scan repo q as"
| "feedback_scan repo q (Load path # as) = feedback_scan repo q as"
| "feedback_scan repo q (IMessage payload # as) = feedback_scan repo q as"

section \<open>The records the renderer returns on\<close>

text \<open>
  A decoded value is well formed for the renderer when it is an object; when its type
  is \<^verbatim>\<open>item.started\<close> or \<^verbatim>\<open>item.completed\<close>, its \<^verbatim>\<open>item\<close> is an object or absent; when
  the item of an \<^verbatim>\<open>item.completed\<close> record is a \<^verbatim>\<open>reasoning\<close> or an \<^verbatim>\<open>agent_message\<close>, its
  \<^verbatim>\<open>text\<close> is a string, absent or falsy; and when its type is \<^verbatim>\<open>turn.completed\<close>, its
  \<^verbatim>\<open>usage\<close> is an object or absent.
\<close>

definition field :: "(string \<times> pyval) list \<Rightarrow> string \<Rightarrow> pyval \<Rightarrow> pyval" where
  "field kvs k d = (case map_of kvs k of Some v \<Rightarrow> v | None \<Rightarrow> d)"

definition is_object :: "pyval \<Rightarrow> bool" where
  "is_object v = (case v of PDict kvs \<Rightarrow> True | _ \<Rightarrow> False)"

definition text_ok :: "(string \<times> pyval) list \<Rightarrow> bool" where
  "text_ok item = (case field item ''text'' PNone of PStr s \<Rightarrow> True | v \<Rightarrow> \<not> truthy v)"

definition well_formed :: "pyval \<Rightarrow> bool" where
  "well_formed payload =
     (case payload of
        PDict kvs \<Rightarrow>
          (if field kvs ''type'' (PStr ''unknown'') = PStr ''item.started''
           then is_object (field kvs ''item'' (PDict []))
           else if field kvs ''type'' (PStr ''unknown'') = PStr ''item.completed''
           then (case field kvs ''item'' (PDict []) of
                   PDict item \<Rightarrow>
                     (if field item ''type'' (PStr ''unknown'') = PStr ''reasoning''
                         \<or> field item ''type'' (PStr ''unknown'') = PStr ''agent_message''
                      then text_ok item else True)
                 | _ \<Rightarrow> False)
           else if field kvs ''type'' (PStr ''unknown'') = PStr ''turn.completed''
           then is_object (field kvs ''usage'' (PDict []))
           else True)
      | _ \<Rightarrow> False)"

text \<open>The line \<^verbatim>\<open>{"type": "item.completed", "item": {"type": "agent_message", "text": null}}\<close>
  and the record it decodes to.\<close>

definition null_text_record :: pyval where
  "null_text_record =
     PDict [(''type'', PStr ''item.completed''),
            (''item'', PDict [(''type'', PStr ''agent_message''), (''text'', PNone)])]"

definition null_text_line :: string where
  "null_text_line =
     ''{'' @ dq @ ''type'' @ dq @ '': '' @ dq @ ''item.completed'' @ dq @ '', ''
       @ dq @ ''item'' @ dq @ '': {'' @ dq @ ''type'' @ dq @ '': '' @ dq @ ''agent_message'' @ dq
       @ '', '' @ dq @ ''text'' @ dq @ '': null}}'' @ nl"

text \<open>\<^verbatim>\<open>json.loads\<close> on the sample lines and on the line above.\<close>

definition sample_loads_null :: "string \<Rightarrow> pyval option" where
  "sample_loads_null s =
     (if s = strip null_text_line then Some null_text_record else sample_loads s)"

section \<open>Facts about the renderer and the multiplexer\<close>

declare task_loop.simps [simp del]
declare digits.simps [simp del]

lemma format_event_tag:
  "format_event fmt payload = Inr (text, tag) \<Longrightarrow> tag \<in> {''default'', ''agent'', ''reasoning''}"
  by (auto simp: format_event_def format_started_def format_completed_def format_turn_def
      split: sum.splits if_splits)

lemma render_line_tag:
  "render_line loads fmt line = Inr (text, tag, summary)
     \<Longrightarrow> tag \<in> {''default'', ''agent'', ''reasoning''}"
  unfolding render_line_def Let_def
  by (auto split: if_splits option.splits sum.splits dest: format_event_tag)

lemma agent_text_of_Some:
  assumes "agent_text_of payload = Inr (Some x)"
  shows "\<exists>kvs item. payload = PDict kvs
           \<and> map_of kvs ''type'' = Some (PStr ''item.completed'')
           \<and> map_of kvs ''item'' = Some (PDict item)
           \<and> map_of item ''type'' = Some (PStr ''agent_message'')
           \<and> text_or_empty (PDict item) = Inr x"
proof -
  from assms obtain kvs where p: "payload = PDict kvs"
    by (cases payload) (auto simp: agent_text_of_def)
  from assms p have ty: "map_of kvs ''type'' = Some (PStr ''item.completed'')"
    by (auto simp: agent_text_of_def split: option.splits if_splits)
  from assms p ty obtain item where it: "map_of kvs ''item'' = Some (PDict item)"
    apply (auto simp: agent_text_of_def split: option.splits if_splits sum.splits)
    subgoal for v by (cases v) auto
    done
  from assms p ty it
  have "map_of item ''type'' = Some (PStr ''agent_message'')" "text_or_empty (PDict item) = Inr x"
    by (auto simp: agent_text_of_def split: option.splits if_splits sum.splits)
  with p ty it show ?thesis by blast
qed

lemma agent_shape_renders:
  assumes "map_of kvs ''type'' = Some (PStr ''item.completed'')"
    and "map_of kvs ''item'' = Some (PDict item)"
    and "map_of item ''type'' = Some (PStr ''agent_message'')"
    and "text_or_empty (PDict item) = Inr x"
  shows "format_event fmt (PDict kvs)
           = Inr (if x \<noteq> [] then ''[agent] '' @ x else ''[agent]'', ''agent'')"
    and "agent_text_of (PDict kvs) = Inr (Some x)"
  using assms by (auto simp: format_event_def format_completed_def agent_text_of_def)

lemma one_round_missing:
  "procs E (launched s) = FileNotFound exc
     \<Longrightarrow> fst (one_round E path m t r fb s) = Raises TypeError"
  by (simp add: one_round_def run_codex_def Let_def print_out_def emit_def stream_process_def)

section \<open>The claims\<close>

text \<open>
  C1. When the external binary is missing, \<open>stream_process\<close> does return without
  raising, but what it returns is the bare integer 127 and not a pair
  \<open>(exit_code, last_agent_message)\<close>. The scheduler unpacks the result of every round
  into two names, so a run whose first executor binary is missing ends in a
  \<^verbatim>\<open>TypeError\<close> where the claim promises a round exit with code 127.
\<close>

theorem missing_binary_bare_code:
  "stream_process loads fmt (FileNotFound exc) prefix
     = (Returns (Bare 127),
        [Write Stderr (''Required binary not found: '' @ exc @ ''. Ensure codex is installed.'' @ nl)])
   \<and> (procs E (launched s) = FileNotFound exc \<and> 0 < m
        \<longrightarrow> fst (run_scheduler E (t # ts) path m s) = Raises TypeError)"
proof (intro conjI impI)
  show "stream_process loads fmt (FileNotFound exc) prefix
     = (Returns (Bare 127),
        [Write Stderr (''Required binary not found: '' @ exc @ ''. Ensure codex is installed.'' @ nl)])"
    by (simp add: stream_process_def)
next
  assume a: "procs E (launched s) = FileNotFound exc \<and> 0 < m"
  then have "procs E (launched (print_out (''Starting task '' @ t) s)) = FileNotFound exc"
    by (simp add: print_out_def emit_def)
  from one_round_missing[OF this, of path m t 0 None] a
  show "fst (run_scheduler E (t # ts) path m s) = Raises TypeError"
    by (auto simp: run_scheduler_def task_loop.simps[of _ _ _ _ 0]
        split: prod.splits outcome.splits step.splits)
qed

theorem missing_binary_bare_code_witness:
  "procs (sample_env (\<lambda>n. FileNotFound ''[Errno 2] No such file or directory: codex'')
            (\<lambda>n. registry [])) (launched start)
     = FileNotFound ''[Errno 2] No such file or directory: codex''
   \<and> (0::int) < 3
   \<and> fst (run_scheduler (sample_env (\<lambda>n. FileNotFound ''[Errno 2] No such file or directory: codex'')
            (\<lambda>n. registry [])) [''T-001''] ''agents/context/tasks_state.yaml'' 3 start)
       = Raises TypeError"
  using missing_binary_bare_code[of sample_loads str_scalar
      "''[Errno 2] No such file or directory: codex''" None
      "sample_env (\<lambda>n. FileNotFound ''[Errno 2] No such file or directory: codex'') (\<lambda>n. registry [])"
      start 3 "''T-001''" "[]" "''agents/context/tasks_state.yaml''"]
  by (simp add: sample_env_def)

lemma render_line_summary_shape:
  assumes r: "render_line loads fmt line = Inr (text, tag, Some y)"
  shows "tag = ''agent''
          \<and> (\<exists>kvs item. loads (strip line) = Some (PDict kvs)
                \<and> map_of kvs ''type'' = Some (PStr ''item.completed'')
                \<and> map_of kvs ''item'' = Some (PDict item)
                \<and> map_of item ''type'' = Some (PStr ''agent_message'')
                \<and> text_or_empty (PDict item) = Inr y)"
proof -
  from r obtain payload where l: "loads (strip line) = Some payload"
    and f: "format_event fmt payload = Inr (text, tag)"
    and g: "agent_text_of payload = Inr (Some y)"
    by (auto simp: render_line_def Let_def split: if_splits option.splits sum.splits)
  from agent_text_of_Some[OF g] obtain kvs item where
    s: "payload = PDict kvs" "map_of kvs ''type'' = Some (PStr ''item.completed'')"
       "map_of kvs ''item'' = Some (PDict item)"
       "map_of item ''type'' = Some (PStr ''agent_message'')"
       "text_or_empty (PDict item) = Inr y"
    by blast
  from agent_shape_renders(1)[OF s(2-5), of fmt] f s(1) have "tag = ''agent''"
    by simp
  with l s show ?thesis by blast
qed

theorem agent_tag_counterexample:
  "format_event str_scalar (agent_record ''hello'') = Inr (''[agent] hello'', ''agent'')
   \<and> render_line sample_loads str_scalar (agent_line ''hello'')
       = Inr (''[agent] hello'', ''agent'', Some ''hello'')
   \<and> ''agent'' \<notin> {''default'', ''agent_message'', ''reasoning''}
   \<and> render_line sample_loads str_scalar (''42'' @ nl) = Inl AttributeError"
  by (simp add: render_line_def format_event_def format_completed_def agent_text_of_def
      sample_loads_def agent_record_def strip_def agent_line_def dq_def nl_def
      py_isspace_def text_or_empty_def)

lemma drain_unregistered:
  "drain loads fmt prefix regs lastmsg evs = (r, ws) \<Longrightarrow> h \<notin> set regs \<Longrightarrow> written h ws = []"
proof (induction evs arbitrary: regs lastmsg r ws)
  case Nil
  then show ?case by simp
next
  case (Cons ev evs)
  obtain h' line ts where ev: "ev = (h', line, ts)" by (cases ev) auto
  show ?case
  proof (cases "regs = [] \<or> h' \<notin> set regs \<or> line = []")
    case True
    with Cons ev show ?thesis by (auto split: if_splits)
  next
    case False
    then have reg: "regs \<noteq> []" "h' \<in> set regs" "line \<noteq> []" by auto
    with Cons.prems have ne: "h' \<noteq> h" by auto
    show ?thesis
    proof (cases "render_line loads fmt line")
      case (Inl e)
      with Cons.prems ev reg show ?thesis by auto
    next
      case (Inr x)
      obtain formatted tag agent_text where x: "x = (formatted, tag, agent_text)" by (cases x) auto
      show ?thesis
      proof (cases "formatted = []")
        case True
        with Cons ev reg Inr x show ?thesis by auto
      next
        case False
        obtain r' ws' where d: "drain loads fmt prefix regs
            (case agent_text of Some t \<Rightarrow> if t \<noteq> [] then Some t else lastmsg | None \<Rightarrow> lastmsg) evs
            = (r', ws')" by (cases "drain loads fmt prefix regs
            (case agent_text of Some t \<Rightarrow> if t \<noteq> [] then Some t else lastmsg | None \<Rightarrow> lastmsg) evs") auto
        from Cons.IH[OF d Cons.prems(2)] have "written h ws' = []" .
        with Cons.prems ev reg Inr x False d ne show ?thesis by auto
      qed
    qed
  qed
qed

lemma arrived_Cons:
  "arrived h ((h', line, ts) # evs) =
     (if h' = h then (if line = [] then [] else (h', line, ts) # arrived h evs) else arrived h evs)"
  by (simp add: arrived_def)

lemma drain_written:
  "drain loads fmt prefix regs lastmsg evs = (r, ws) \<Longrightarrow> h \<in> set regs \<Longrightarrow>
     (\<exists>n. written h ws = List.map_filter (rendered loads fmt prefix) (take n (arrived h evs)))
     \<and> ((\<exists>x. r = Returns x)
          \<longrightarrow> written h ws = List.map_filter (rendered loads fmt prefix) (arrived h evs))"
proof (induction evs arbitrary: regs lastmsg r ws)
  case Nil
  then show ?case by (simp add: arrived_def List.map_filter_simps split: if_splits)
next
  case (Cons ev evs)
  obtain h' line ts where ev: "ev = (h', line, ts)" by (cases ev) auto
  from Cons.prems have regs: "regs \<noteq> []" by auto
  show ?case
  proof (cases "h' \<in> set regs")
    case False
    with Cons.prems have "h' \<noteq> h" by auto
    moreover from Cons.prems ev regs False have "drain loads fmt prefix regs lastmsg evs = (r, ws)"
      by simp
    ultimately show ?thesis using Cons.IH[OF _ Cons.prems(2)] ev by (simp add: arrived_Cons)
  next
    case reg: True
    show ?thesis
    proof (cases "line = []")
      case True
      with Cons.prems ev regs reg
      have d: "drain loads fmt prefix (removeAll h' regs) lastmsg evs = (r, ws)" by simp
      show ?thesis
      proof (cases "h' = h")
        case True
        with drain_unregistered[OF d, of h] have "written h ws = []" by simp
        with True \<open>line = []\<close> ev show ?thesis by (simp add: arrived_Cons List.map_filter_simps)
      next
        case False
        with Cons.prems(2) have "h \<in> set (removeAll h' regs)" by simp
        from Cons.IH[OF d this] False ev show ?thesis by (simp add: arrived_Cons)
      qed
    next
      case line: False
      show ?thesis
      proof (cases "render_line loads fmt line")
        case (Inl e)
        with Cons.prems ev regs reg line have "ws = []" "r = Raises e" by auto
        then show ?thesis by (auto simp: List.map_filter_simps intro: exI[of _ 0])
      next
        case (Inr x)
        obtain formatted tag agent_text where x: "x = (formatted, tag, agent_text)"
          by (cases x) auto
        show ?thesis
        proof (cases "formatted = []")
          case True
          with Cons.prems ev regs reg line Inr x
          have d: "drain loads fmt prefix regs lastmsg evs = (r, ws)" by simp
          from Inr x True have none: "rendered loads fmt prefix (h', line, ts) = None"
            by (simp add: rendered_def)
          from Cons.IH[OF d Cons.prems(2)] obtain n where
            n: "written h ws = List.map_filter (rendered loads fmt prefix) (take n (arrived h evs))"
            and full: "(\<exists>x. r = Returns x)
              \<longrightarrow> written h ws = List.map_filter (rendered loads fmt prefix) (arrived h evs)"
            by blast
          show ?thesis
          proof (cases "h' = h")
            case True
            with n none line ev
            have "written h ws = List.map_filter (rendered loads fmt prefix)
                    (take (Suc n) (arrived h (ev # evs)))"
              by (simp add: arrived_Cons List.map_filter_simps)
            moreover from full none line ev True
            have "(\<exists>x. r = Returns x)
              \<longrightarrow> written h ws = List.map_filter (rendered loads fmt prefix) (arrived h (ev # evs))"
              by (simp add: arrived_Cons List.map_filter_simps)
            ultimately show ?thesis by blast
          next
            case False
            with n full ev show ?thesis by (auto simp: arrived_Cons)
          qed
        next
          case False
          obtain r' ws' where d: "drain loads fmt prefix regs
              (case agent_text of Some t \<Rightarrow> if t \<noteq> [] then Some t else lastmsg | None \<Rightarrow> lastmsg) evs
              = (r', ws')" by (cases "drain loads fmt prefix regs
              (case agent_text of Some t \<Rightarrow> if t \<noteq> [] then Some t else lastmsg | None \<Rightarrow> lastmsg) evs") auto
          with Cons.prems ev regs reg line Inr x False
          have r: "r = r'" and ws: "ws = Write h' (output_line prefix ts formatted tag) # ws'"
            by auto
          from Inr x False
          have some: "rendered loads fmt prefix (h', line, ts) = Some (output_line prefix ts formatted tag)"
            by (simp add: rendered_def)
          from Cons.IH[OF d Cons.prems(2)] obtain n where
            n: "written h ws' = List.map_filter (rendered loads fmt prefix) (take n (arrived h evs))"
            and full: "(\<exists>x. r' = Returns x)
              \<longrightarrow> written h ws' = List.map_filter (rendered loads fmt prefix) (arrived h evs)"
            by blast
          show ?thesis
          proof (cases "h' = h")
            case True
            with n some line ev ws
            have "written h ws = List.map_filter (rendered loads fmt prefix)
                    (take (Suc n) (arrived h (ev # evs)))"
              by (simp add: arrived_Cons List.map_filter_simps)
            moreover from full some line ev True ws r
            have "(\<exists>x. r = Returns x)
              \<longrightarrow> written h ws = List.map_filter (rendered loads fmt prefix) (arrived h (ev # evs))"
              by (simp add: arrived_Cons List.map_filter_simps)
            ultimately show ?thesis by blast
          next
            case False
            with n full ev ws r show ?thesis by (auto simp: arrived_Cons)
          qed
        qed
      qed
    qed
  qed
qed
lemma format_event_nonempty: "format_event fmt payload = Inr (text, tag) \<Longrightarrow> text \<noteq> []"
  by (auto simp: format_event_def format_started_def format_completed_def format_turn_def
      split: sum.splits if_splits)

lemma render_line_blank:
  "render_line loads fmt line = Inr ([], tag, agent_text) \<Longrightarrow> agent_text = None"
  unfolding render_line_def Let_def
  by (auto split: if_splits option.splits sum.splits dest: format_event_nonempty)

lemma last_nonempty_Cons:
  "last_nonempty (t # ts) =
     (case last_nonempty ts of Some u \<Rightarrow> Some u | None \<Rightarrow> if t \<noteq> [] then Some t else None)"
  by (auto simp: last_nonempty_def split: list.splits)

lemma last_nonempty_Nil: "last_nonempty [] = None"
  by (simp add: last_nonempty_def)

lemma seen_Nil: "seen [] evs = []"
  by (induction evs) auto

lemma drain_last:
  "drain loads fmt prefix regs lastmsg evs = (Returns r, ws) \<Longrightarrow>
     r = (case last_nonempty (List.map_filter (extracted loads fmt) (seen regs evs)) of
            None \<Rightarrow> lastmsg | Some t \<Rightarrow> Some t)"
proof (induction evs arbitrary: regs lastmsg ws)
  case Nil
  then show ?case by (simp add: List.map_filter_simps last_nonempty_Nil split: if_splits)
next
  case (Cons ev evs)
  obtain h line ts where ev: "ev = (h, line, ts)" by (cases ev) auto
  show ?case
  proof (cases "regs = []")
    case True
    with Cons.prems ev show ?thesis
      by (simp add: List.map_filter_simps last_nonempty_Nil seen_Nil)
  next
    case regs: False
    show ?thesis
    proof (cases "h \<notin> set regs \<or> line = []")
      case True
      with Cons ev regs show ?thesis by (auto split: if_splits)
    next
      case False
      then have reg: "h \<in> set regs" "line \<noteq> []" by auto
      show ?thesis
      proof (cases "render_line loads fmt line")
        case (Inl e)
        with Cons.prems ev regs reg show ?thesis by auto
      next
        case (Inr x)
        obtain formatted tag agent_text where x: "x = (formatted, tag, agent_text)"
          by (cases x) auto
        show ?thesis
        proof (cases "formatted = []")
          case True
          with Inr x have "agent_text = None" by (auto dest: render_line_blank)
          with Inr x have none: "extracted loads fmt (h, line, ts) = None"
            by (simp add: extracted_def)
          from Cons.prems ev regs reg Inr x True
          have "drain loads fmt prefix regs lastmsg evs = (Returns r, ws)" by simp
          from Cons.IH[OF this] none ev reg show ?thesis
            by (simp add: List.map_filter_simps)
        next
          case False
          let ?l = "case agent_text of Some t \<Rightarrow> if t \<noteq> [] then Some t else lastmsg
                    | None \<Rightarrow> lastmsg"
          obtain r' ws' where d: "drain loads fmt prefix regs ?l evs = (r', ws')"
            by (cases "drain loads fmt prefix regs ?l evs") auto
          with Cons.prems ev regs reg Inr x False have "r' = Returns r" by auto
          with d have "drain loads fmt prefix regs ?l evs = (Returns r, ws')" by simp
          from Cons.IH[OF this]
          have ih: "r = (case last_nonempty (List.map_filter (extracted loads fmt) (seen regs evs)) of
                      None \<Rightarrow> ?l | Some t \<Rightarrow> Some t)" .
          from Inr x have e: "extracted loads fmt (h, line, ts) = agent_text"
            by (simp add: extracted_def)
          show ?thesis
          proof (cases agent_text)
            case None
            with ih e ev reg show ?thesis
              by (simp add: List.map_filter_simps split: option.splits)
          next
            case (Some t)
            with ih e ev reg show ?thesis
              by (simp add: List.map_filter_simps last_nonempty_Cons split: option.splits)
          qed
        qed
      qed
    qed
  qed
qed

lemma drain_returns:
  "\<forall>ev \<in> set evs. \<exists>x. render_line loads fmt (fst (snd ev)) = Inr x \<Longrightarrow>
   \<forall>h \<in> set regs. \<exists>t. (h, [], t) \<in> set evs \<Longrightarrow>
   \<exists>r ws. drain loads fmt prefix regs lastmsg evs = (Returns r, ws)"
proof (induction evs arbitrary: regs lastmsg)
  case Nil
  then have "regs = []" by (cases regs) auto
  then show ?case by simp
next
  case (Cons ev evs)
  obtain h line ts where ev: "ev = (h, line, ts)" by (cases ev) auto
  from Cons.prems(1) have all: "\<forall>ev \<in> set evs. \<exists>x. render_line loads fmt (fst (snd ev)) = Inr x"
    by simp
  show ?case
  proof (cases "regs = []")
    case True
    with ev show ?thesis by simp
  next
    case regs: False
    show ?thesis
    proof (cases "h \<in> set regs")
      case False
      with Cons.prems(2) ev have "\<forall>h' \<in> set regs. \<exists>t. (h', [], t) \<in> set evs" by auto
      from Cons.IH[OF all this, of lastmsg] ev regs False show ?thesis by simp
    next
      case reg: True
      show ?thesis
      proof (cases "line = []")
        case True
        from Cons.prems(2) ev
        have "\<forall>h' \<in> set (removeAll h regs). \<exists>t. (h', [], t) \<in> set evs" by auto
        from Cons.IH[OF all this, of lastmsg] ev regs reg True show ?thesis by simp
      next
        case line: False
        with Cons.prems(2) ev have eof: "\<forall>h' \<in> set regs. \<exists>t. (h', [], t) \<in> set evs" by auto
        from Cons.prems(1) ev obtain formatted tag agent_text where
          x: "render_line loads fmt line = Inr (formatted, tag, agent_text)"
          by (metis fst_conv list.set_intros(1) prod_cases3 snd_conv)
        show ?thesis
        proof (cases "formatted = []")
          case True
          from Cons.IH[OF all eof, of lastmsg] ev regs reg line x True show ?thesis by simp
        next
          case False
          from Cons.IH[OF all eof, of "case agent_text of Some t \<Rightarrow> if t \<noteq> [] then Some t else lastmsg
                    | None \<Rightarrow> lastmsg"]
          obtain r ws where "drain loads fmt prefix regs
             (case agent_text of Some t \<Rightarrow> if t \<noteq> [] then Some t else lastmsg | None \<Rightarrow> lastmsg) evs
             = (Returns r, ws)" by blast
          with ev regs reg line x False show ?thesis by simp
        qed
      qed
    qed
  qed
qed

text \<open>
  C8. Whatever the interleaving and however the session ends, what is written to the
  sink of a handle is the rendering, line by line and in arrival order, of an initial
  part of the lines that arrived on that handle; when \<open>stream_process\<close> returns, it is the
  rendering of all of them (a line that renders as the empty text writes nothing).
\<close>

theorem per_handle_order:
  "stream_process loads fmt (Spawned evs status) prefix = (r, ws) \<longrightarrow>
     (\<exists>n. written h ws = List.map_filter (rendered loads fmt prefix) (take n (arrived h evs)))
     \<and> ((\<exists>x. r = Returns x)
          \<longrightarrow> written h ws = List.map_filter (rendered loads fmt prefix) (arrived h evs))"
proof
  assume a: "stream_process loads fmt (Spawned evs status) prefix = (r, ws)"
  obtain r' ws' where d: "drain loads fmt prefix [Stdout, Stderr] None evs = (r', ws')"
    by (cases "drain loads fmt prefix [Stdout, Stderr] None evs") auto
  with a have ws: "ws = ws'" and r: "(\<exists>x. r = Returns x) \<longrightarrow> (\<exists>x. r' = Returns x)"
    by (auto simp: stream_process_def split: outcome.splits)
  have "h \<in> set [Stdout, Stderr]" by (cases h) auto
  from drain_written[OF d this] ws r show
    "(\<exists>n. written h ws = List.map_filter (rendered loads fmt prefix) (take n (arrived h evs)))
     \<and> ((\<exists>x. r = Returns x)
          \<longrightarrow> written h ws = List.map_filter (rendered loads fmt prefix) (arrived h evs))"
    by blast
qed

text \<open>
  C4 (corrected). The guard \<^verbatim>\<open>if agent_text:\<close> keeps an empty extracted text from
  overwriting the last agent message. When \<open>stream_process\<close> returns from a started
  process, the exit code is the process's and the message is the last non-empty text
  extracted from a completed agent message among the lines read on both handles, or
  absent if there is none; and it does return when every line renders and both handles
  reach their end of stream.
\<close>

theorem last_agent_message_nonempty:
  "(stream_process loads fmt (Spawned evs status) prefix = (Returns (Pair c msg), ws) \<longrightarrow>
      c = status
      \<and> msg = last_nonempty (List.map_filter (extracted loads fmt) (seen [Stdout, Stderr] evs)))
   \<and> ((\<forall>ev \<in> set evs. \<exists>x. render_line loads fmt (fst (snd ev)) = Inr x)
        \<and> (\<forall>h. \<exists>t. (h, [], t) \<in> set evs)
      \<longrightarrow> (\<exists>msg ws. stream_process loads fmt (Spawned evs status) prefix
                        = (Returns (Pair status msg), ws)))"
proof (intro conjI impI)
  assume a: "stream_process loads fmt (Spawned evs status) prefix = (Returns (Pair c msg), ws)"
  then have d: "drain loads fmt prefix [Stdout, Stderr] None evs = (Returns msg, ws)" and c: "c = status"
    by (auto simp: stream_process_def split: outcome.splits prod.splits)
  from c show "c = status" .
  from drain_last[OF d]
  show "msg = last_nonempty (List.map_filter (extracted loads fmt) (seen [Stdout, Stderr] evs))"
    by (simp split: option.splits)
next
  assume a: "(\<forall>ev \<in> set evs. \<exists>x. render_line loads fmt (fst (snd ev)) = Inr x)
        \<and> (\<forall>h. \<exists>t. (h, [], t) \<in> set evs)"
  then have "\<forall>h \<in> set [Stdout, Stderr]. \<exists>t. (h, [], t) \<in> set evs" by blast
  from drain_returns[OF _ this, of loads fmt prefix None] a
  obtain r ws where "drain loads fmt prefix [Stdout, Stderr] None evs = (Returns r, ws)" by blast
  then show "\<exists>msg ws. stream_process loads fmt (Spawned evs status) prefix
                        = (Returns (Pair status msg), ws)"
    by (simp add: stream_process_def)
qed
lemmas sample_simps =
  stream_process_def render_line_def format_event_def format_completed_def agent_text_of_def
  text_or_empty_def sample_loads_def agent_record_def agent_line_def dq_def nl_def strip_def
  py_isspace_def output_line_def colorize_def ANSI_GREEN_def ANSI_RESET_def

theorem per_handle_order_witness:
  "stream_process sample_loads str_scalar (Spawned interleaved 0) None
     = (fst (stream_process sample_loads str_scalar (Spawned interleaved 0) None),
        snd (stream_process sample_loads str_scalar (Spawned interleaved 0) None))
   \<and> fst (stream_process sample_loads str_scalar (Spawned interleaved 0) None)
       = Returns (Pair 0 (Some ''hello''))
   \<and> written Stderr (snd (stream_process sample_loads str_scalar (Spawned interleaved 0) None))
       = List.map_filter (rendered sample_loads str_scalar None) (arrived Stderr interleaved)
   \<and> written Stderr (snd (stream_process sample_loads str_scalar (Spawned interleaved 0) None))
       = [''[2026-01-01 00:00:00] warn 1'' @ nl, ''[2026-01-01 00:00:03] warn 2'' @ nl]"
  using per_handle_order[of sample_loads str_scalar interleaved 0 None
      "fst (stream_process sample_loads str_scalar (Spawned interleaved 0) None)"
      "snd (stream_process sample_loads str_scalar (Spawned interleaved 0) None)" Stderr]
  by (simp add: interleaved_def sample_simps)

theorem last_agent_message_nonempty_witness:
  "stream_process sample_loads str_scalar (Spawned two_messages 0) None
     = (Returns (Pair 0 (Some ''hello'')),
        snd (stream_process sample_loads str_scalar (Spawned two_messages 0) None))
   \<and> last_nonempty (List.map_filter (extracted sample_loads str_scalar)
         (seen [Stdout, Stderr] two_messages)) = Some ''hello''
   \<and> list_all (\<lambda>ev. \<exists>x. render_line sample_loads str_scalar (fst (snd ev)) = Inr x) two_messages
   \<and> (\<forall>h. \<exists>t. (h, [], t) \<in> set two_messages)"
proof -
  have r: "stream_process sample_loads str_scalar (Spawned two_messages 0) None
     = (Returns (Pair 0 (Some ''hello'')),
        snd (stream_process sample_loads str_scalar (Spawned two_messages 0) None))"
    by (simp add: two_messages_def sample_simps)
  have a: "\<forall>ev \<in> set two_messages. \<exists>x. render_line sample_loads str_scalar (fst (snd ev)) = Inr x"
    by (simp add: two_messages_def sample_simps)
  have b: "\<forall>h. \<exists>t. (h, [], t) \<in> set two_messages"
  proof
    fix h show "\<exists>t. (h, [], t) \<in> set two_messages"
      by (cases h) (auto simp: two_messages_def)
  qed
  from last_agent_message_nonempty[of sample_loads str_scalar two_messages 0 None 0 "Some ''hello''"
      "snd (stream_process sample_loads str_scalar (Spawned two_messages 0) None)"] r a b
  show ?thesis by (simp add: list_all_iff)
qed

theorem empty_message_counterexample:
  "fst (stream_process sample_loads str_scalar (Spawned two_messages 0) None)
     = Returns (Pair 0 (Some ''hello''))
   \<and> List.map_filter (extracted sample_loads str_scalar) (seen [Stdout, Stderr] two_messages)
       = [''hello'', []]
   \<and> fst (stream_process sample_loads str_scalar (Spawned two_messages 0) None)
       \<noteq> Returns (Pair 0 (Some (last (List.map_filter (extracted sample_loads str_scalar)
                                        (seen [Stdout, Stderr] two_messages)))))"
  by (simp add: two_messages_def sample_simps extracted_def List.map_filter_simps)

section \<open>Facts about the scheduler\<close>

lemma emit_simps [simp]:
  "trace (emit as s) = trace s @ as" "launched (emit as s) = launched s"
  "loaded (emit as s) = loaded s"
  by (simp_all add: emit_def)

lemma print_simps [simp]:
  "trace (print_out text s) = trace s @ [Write Stdout (text @ nl)]"
  "launched (print_out text s) = launched s" "loaded (print_out text s) = loaded s"
  "trace (print_err text s) = trace s @ [Write Stderr (text @ nl)]"
  "launched (print_err text s) = launched s" "loaded (print_err text s) = loaded s"
  by (simp_all add: print_out_def print_err_def)

lemma calls_simps [simp]:
  "calls [] = []" "calls (xs @ ys) = calls xs @ calls ys"
  "calls (Write h text # xs) = calls xs" "calls (Codex p t r # xs) = Codex p t r # calls xs"
  "calls (Load path # xs) = Load path # calls xs" "calls (Status tk v # xs) = Status tk v # calls xs"
  "calls (IMessage x # xs) = IMessage x # calls xs"
  by (simp_all add: calls_def)

lemma send_imessage_simps [simp]:
  "launched (send_imessage E role t status response s) = launched s"
  "loaded (send_imessage E role t status response s) = loaded s"
  "calls (trace (send_imessage E role t status response s))
     = calls (trace s) @ [IMessage (notification role t status response)]"
  by (simp_all add: send_imessage_def Let_def)

lemma drain_calls: "drain loads fmt prefix regs lastmsg evs = (r, ws) \<Longrightarrow> calls ws = []"
proof (induction evs arbitrary: regs lastmsg r ws)
  case Nil
  then show ?case by simp
next
  case (Cons ev evs)
  obtain h line ts where ev: "ev = (h, line, ts)" by (cases ev) auto
  show ?case
  proof (cases "regs = [] \<or> h \<notin> set regs \<or> line = []")
    case True
    with Cons ev show ?thesis by (auto split: if_splits)
  next
    case False
    then have reg: "regs \<noteq> []" "h \<in> set regs" "line \<noteq> []" by auto
    show ?thesis
    proof (cases "render_line loads fmt line")
      case (Inl e)
      with Cons.prems ev reg show ?thesis by auto
    next
      case (Inr x)
      obtain formatted tag agent_text where x: "x = (formatted, tag, agent_text)" by (cases x) auto
      show ?thesis
      proof (cases "formatted = []")
        case True
        with Cons ev reg Inr x show ?thesis by auto
      next
        case False
        obtain r' ws' where d: "drain loads fmt prefix regs
            (case agent_text of Some t \<Rightarrow> if t \<noteq> [] then Some t else lastmsg | None \<Rightarrow> lastmsg) evs
            = (r', ws')" by (cases "drain loads fmt prefix regs
            (case agent_text of Some t \<Rightarrow> if t \<noteq> [] then Some t else lastmsg | None \<Rightarrow> lastmsg) evs") auto
        from Cons.IH[OF d] have "calls ws' = []" .
        with Cons.prems ev reg Inr x False d show ?thesis by auto
      qed
    qed
  qed
qed

lemma drain_fst_prefix:
  "fst (drain loads fmt prefix regs lastmsg evs) = fst (drain loads fmt None regs lastmsg evs)"
proof (induction evs arbitrary: regs lastmsg)
  case Nil
  then show ?case by simp
next
  case (Cons ev evs)
  obtain h line ts where ev: "ev = (h, line, ts)" by (cases ev) auto
  show ?case unfolding ev
  proof (cases "render_line loads fmt line")
    case (Inl e)
    with Cons.IH show "fst (drain loads fmt prefix regs lastmsg ((h, line, ts) # evs))
        = fst (drain loads fmt None regs lastmsg ((h, line, ts) # evs))" by simp
  next
    case (Inr x)
    obtain formatted tag agent_text where x: "x = (formatted, tag, agent_text)" by (cases x) auto
    let ?l = "case agent_text of Some t \<Rightarrow> if t \<noteq> [] then Some t else lastmsg | None \<Rightarrow> lastmsg"
    from Cons.IH[of regs ?l] Cons.IH[of regs lastmsg] Cons.IH[of "removeAll h regs" lastmsg] Inr x
    show "fst (drain loads fmt prefix regs lastmsg ((h, line, ts) # evs))
        = fst (drain loads fmt None regs lastmsg ((h, line, ts) # evs))"
      by (simp add: case_prod_beta)
  qed
qed

lemma stream_process_calls: "stream_process loads fmt p prefix = (r, ws) \<Longrightarrow> calls ws = []"
  by (auto simp: stream_process_def split: launch.splits prod.splits outcome.splits
      dest: drain_calls)

lemma stream_process_fst:
  "fst (stream_process loads fmt p prefix) = fst (stream_process loads fmt p None)"
proof (cases p)
  case (FileNotFound x)
  then show ?thesis by (simp add: stream_process_def)
next
  case (Spawned evs status)
  obtain r ws where a: "drain loads fmt prefix [Stdout, Stderr] None evs = (r, ws)"
    by (cases "drain loads fmt prefix [Stdout, Stderr] None evs") auto
  obtain r' ws' where b: "drain loads fmt None [Stdout, Stderr] None evs = (r', ws')"
    by (cases "drain loads fmt None [Stdout, Stderr] None evs") auto
  from drain_fst_prefix[of loads fmt prefix "[Stdout, Stderr]" None evs] a b have "r = r'" by simp
  with Spawned a b show ?thesis
    by (simp add: stream_process_def split: outcome.splits)
qed

lemma run_codexD:
  assumes "run_codex E p t r s = (res, s1)"
  shows "res = round_exit E (launched s)" "launched s1 = Suc (launched s)" "loaded s1 = loaded s"
    "calls (trace s1) = calls (trace s) @ [Codex p t r]"
proof -
  obtain x ws where sp: "stream_process (json_loads E) (py_str E) (procs E (launched s))
      (codex_prefix t r) = (x, ws)"
    by (cases "stream_process (json_loads E) (py_str E) (procs E (launched s)) (codex_prefix t r)") auto
  from assms sp have res: "res = x"
    and s1: "s1 = (emit ws (print_out (''Running: '' @ join_spaces (build_command p))
                    (emit [Codex p t r] s)))\<lparr>launched := Suc (launched s)\<rparr>"
    by (auto simp: run_codex_def Let_def)
  from stream_process_fst[of "json_loads E" "py_str E" "procs E (launched s)" "codex_prefix t r"] sp res
  show "res = round_exit E (launched s)" by (simp add: round_exit_def)
  from s1 show "launched s1 = Suc (launched s)" "loaded s1 = loaded s" by simp_all
  from s1 stream_process_calls[OF sp] show "calls (trace s1) = calls (trace s) @ [Codex p t r]"
    by simp
qed

lemma task_statusD:
  assumes "task_status E path t s = (res, s1)"
  shows "res = status_at E (loaded s) t" "launched s1 = launched s" "loaded s1 = Suc (loaded s)"
    "calls (trace s1) = calls (trace s) @ Load path
        # (case res of Returns v \<Rightarrow> [Status t v] | _ \<Rightarrow> [])"
  using assms
  by (auto simp: task_status_def load_tasks_state_def status_at_def Let_def
      split: sum.splits pyval.splits if_splits)

lemma run_tasks_zero:
  "m \<le> 0 \<Longrightarrow> run_tasks E path m ts s
     = (Returns 0, s\<lparr>trace := trace s @ map (\<lambda>t. Write Stdout (''Starting task '' @ t @ nl)) ts\<rparr>)"
proof (induction ts arbitrary: s)
  case Nil
  then show ?case by simp
next
  case (Cons t ts)
  have "task_loop E path m t 0 None (print_out (''Starting task '' @ t) s)
        = (Returns None, print_out (''Starting task '' @ t) s)"
    using Cons.prems by (simp add: task_loop.simps[of _ _ _ _ 0])
  with Cons.IH[OF Cons.prems, of "print_out (''Starting task '' @ t) s"] show ?case
    by (simp add: print_out_def emit_def)
qed

lemma calls_starting: "calls (map (\<lambda>t. Write Stdout (f t)) ts) = []"
  by (induction ts) auto

lemma run_tasks_Cons:
  "run_tasks E path m (t # rest) s
     = run_from E path m t rest 0 None (print_out (''Starting task '' @ t) s)"
  by (simp add: run_from_def)

lemma rounds_of_calls: "rounds_of role t (calls as) = rounds_of role t as"
proof (induction as)
  case Nil
  then show ?case by simp
next
  case (Cons a as)
  then show ?case by (cases a) (auto simp: rounds_of_def)
qed

lemma rounds_of_append: "rounds_of role t (xs @ ys) = rounds_of role t xs @ rounds_of role t ys"
  by (simp add: rounds_of_def)

text \<open>
  C10. With a round cap that is zero or negative the \<^verbatim>\<open>while\<close> loop of no task is
  entered: \<open>run_scheduler\<close> returns 0, and all it does is print the line
  \<^verbatim>\<open>Starting task <id>\<close> for each task. No process is launched, the task-state file is
  not read and no notification is sent.
\<close>

theorem zero_cap_does_nothing:
  "m \<le> 0 \<longrightarrow>
     run_scheduler E ts path m s
       = (Returns 0,
          s\<lparr>trace := trace s @ map (\<lambda>t. Write Stdout (''Starting task '' @ t @ nl)) ts\<rparr>)
     \<and> launched (snd (run_scheduler E ts path m s)) = launched s
     \<and> loaded (snd (run_scheduler E ts path m s)) = loaded s
     \<and> calls (trace (snd (run_scheduler E ts path m s))) = calls (trace s)"
  by (simp add: run_scheduler_def run_tasks_zero calls_starting)

theorem zero_cap_does_nothing_witness:
  "(0::int) \<le> 0
   \<and> run_scheduler (sample_env (\<lambda>n. quiet 0) (\<lambda>n. registry [(''T-001'', ''ready'')]))
        [''T-001'', ''T-002''] ''agents/context/tasks_state.yaml'' 0 start
       = (Returns 0,
          \<lparr>launched = 0, loaded = 0,
           trace = [Write Stdout (''Starting task T-001'' @ nl),
                    Write Stdout (''Starting task T-002'' @ nl)]\<rparr>)"
  using zero_cap_does_nothing[of 0 "sample_env (\<lambda>n. quiet 0) (\<lambda>n. registry [(''T-001'', ''ready'')])"
      "[''T-001'', ''T-002'']" "''agents/context/tasks_state.yaml''" start]
  by (simp add: start_def)

lemma one_round_not_ready:
  assumes ex: "round_exit E (launched s) = Returns (Pair 0 summary)"
    and st: "status_at E (loaded s) t = Returns status"
    and ne: "status \<noteq> Some ''ready_for_review''"
  shows "\<exists>s'. one_round E path m t r fb s = (Returns (Return 1), s')
           \<and> launched s' = Suc (launched s) \<and> loaded s' = Suc (loaded s)
           \<and> calls (trace s') = calls (trace s)
                @ [Codex (build_executor_prompt (cwd E) t fb) (Some t) (Some ''executor''),
                   Load path, Status t status,
                   IMessage (notification ''executor'' t status summary)]"
proof -
  obtain res s1 where rc: "run_codex E (build_executor_prompt (cwd E) t fb) (Some t)
      (Some ''executor'') s = (res, s1)"
    by (cases "run_codex E (build_executor_prompt (cwd E) t fb) (Some t) (Some ''executor'') s") auto
  note d1 = run_codexD[OF rc]
  obtain res2 s2 where ts: "task_status E path t s1 = (res2, s2)"
    by (cases "task_status E path t s1") auto
  note d2 = task_statusD[OF ts]
  from d1 ex have res: "res = Returns (Pair 0 summary)" by simp
  from d2 d1 st have res2: "res2 = Returns status" by simp
  from rc ts res res2 ne d1 d2 show ?thesis
    by (simp add: one_round_def)
qed

text \<open>
  C5. At the head of the loop of a task, with rounds left: when the executor exits
  with code 0 and the status then read is anything but \<^verbatim>\<open>ready_for_review\<close> (also no
  status at all), the run returns 1. One process was launched, the executor; the calls
  made are the executor round, the status read and the executor notification, and no
  reviewer round of the task is added to the trace.
\<close>

theorem not_ready_aborts:
  "rounds < m \<and> round_exit E (launched s) = Returns (Pair 0 summary)
     \<and> status_at E (loaded s) t = Returns status \<and> status \<noteq> Some ''ready_for_review''
   \<longrightarrow> (\<exists>s'. run_from E path m t rest rounds fb s = (Returns 1, s')
          \<and> launched s' = Suc (launched s)
          \<and> calls (trace s') = calls (trace s)
               @ [Codex (build_executor_prompt (cwd E) t fb) (Some t) (Some ''executor''),
                  Load path, Status t status,
                  IMessage (notification ''executor'' t status summary)]
          \<and> rounds_of ''reviewer'' t (trace s') = rounds_of ''reviewer'' t (trace s))"
proof
  assume a: "rounds < m \<and> round_exit E (launched s) = Returns (Pair 0 summary)
     \<and> status_at E (loaded s) t = Returns status \<and> status \<noteq> Some ''ready_for_review''"
  from one_round_not_ready[of E s summary t status path m rounds fb] a
  obtain s' where o: "one_round E path m t rounds fb s = (Returns (Return 1), s')"
    and l: "launched s' = Suc (launched s)"
    and c: "calls (trace s') = calls (trace s)
                @ [Codex (build_executor_prompt (cwd E) t fb) (Some t) (Some ''executor''),
                   Load path, Status t status,
                   IMessage (notification ''executor'' t status summary)]"
    by blast
  from o a have "run_from E path m t rest rounds fb s = (Returns 1, s')"
    by (simp add: run_from_def task_loop.simps[of _ _ _ _ rounds])
  moreover have "rounds_of ''reviewer'' t (trace s') = rounds_of ''reviewer'' t (trace s)"
    using arg_cong[OF c, of "rounds_of ''reviewer'' t"]
    by (simp add: rounds_of_calls rounds_of_append) (simp add: rounds_of_def)
  ultimately show "\<exists>s'. run_from E path m t rest rounds fb s = (Returns 1, s')
          \<and> launched s' = Suc (launched s)
          \<and> calls (trace s') = calls (trace s)
               @ [Codex (build_executor_prompt (cwd E) t fb) (Some t) (Some ''executor''),
                  Load path, Status t status,
                  IMessage (notification ''executor'' t status summary)]
          \<and> rounds_of ''reviewer'' t (trace s') = rounds_of ''reviewer'' t (trace s)"
    using l c by blast
qed

lemmas quiet_simps = sample_env_def quiet_def registry_def round_exit_def status_at_def
  status_of_def stream_process_def start_def

theorem not_ready_aborts_witness:
  "(0::int) < 3
   \<and> round_exit (sample_env (\<lambda>n. quiet 0) (\<lambda>n. registry [(''T-001'', ''in_progress'')]))
        (launched (print_out ''Starting task T-001'' start)) = Returns (Pair 0 None)
   \<and> status_at (sample_env (\<lambda>n. quiet 0) (\<lambda>n. registry [(''T-001'', ''in_progress'')]))
        (loaded (print_out ''Starting task T-001'' start)) ''T-001'' = Returns (Some ''in_progress'')
   \<and> Some ''in_progress'' \<noteq> Some ''ready_for_review''
   \<and> fst (run_scheduler (sample_env (\<lambda>n. quiet 0) (\<lambda>n. registry [(''T-001'', ''in_progress'')]))
        [''T-001'', ''T-002''] ''agents/context/tasks_state.yaml'' 3 start) = Returns 1
   \<and> rounds_of ''reviewer'' ''T-001''
        (trace (snd (run_scheduler (sample_env (\<lambda>n. quiet 0) (\<lambda>n. registry [(''T-001'', ''in_progress'')]))
        [''T-001'', ''T-002''] ''agents/context/tasks_state.yaml'' 3 start))) = []"
proof -
  let ?E = "sample_env (\<lambda>n. quiet 0) (\<lambda>n. registry [(''T-001'', ''in_progress'')])"
  let ?s = "print_out ''Starting task T-001'' start"
  have h: "(0::int) < 3 \<and> round_exit ?E (launched ?s) = Returns (Pair 0 None)
      \<and> status_at ?E (loaded ?s) ''T-001'' = Returns (Some ''in_progress'')
      \<and> Some ''in_progress'' \<noteq> Some ''ready_for_review''"
    by (simp add: quiet_simps)
  with not_ready_aborts[of 0 3 ?E ?s None "''T-001''" "Some ''in_progress''"
      "''agents/context/tasks_state.yaml''" "[''T-002'']" None]
  obtain s' where r: "run_from ?E ''agents/context/tasks_state.yaml'' 3 ''T-001'' [''T-002''] 0 None ?s
      = (Returns 1, s')"
    and n: "rounds_of ''reviewer'' ''T-001'' (trace s') = rounds_of ''reviewer'' ''T-001'' (trace ?s)"
    by blast
  from r have "run_scheduler ?E [''T-001'', ''T-002''] ''agents/context/tasks_state.yaml'' 3 start
      = (Returns 1, s')"
    by (simp only: run_scheduler_def run_tasks_Cons append.simps)
  moreover from n have "rounds_of ''reviewer'' ''T-001'' (trace s') = []"
    by (simp add: rounds_of_def start_def)
  ultimately show ?thesis using h by simp
qed

lemma status_at_const:
  "files E n = Inr (PDict kvs) \<Longrightarrow> status_at E n t = Returns (status_of (PDict kvs) t)"
  by (cases kvs) (simp_all add: status_at_def)

lemma not_done_const:
  assumes "\<forall>n. files E n = Inr (PDict kvs)"
  shows "fst (not_done E path ids s)
           = Returns (filter (\<lambda>k. status_of (PDict kvs) k \<noteq> Some ''done'') ids)"
proof (induction ids arbitrary: s)
  case Nil
  then show ?case by simp
next
  case (Cons t ids)
  obtain res s1 where ts: "task_status E path t s = (res, s1)"
    by (cases "task_status E path t s") auto
  from task_statusD(1)[OF ts] assms have res: "res = Returns (status_of (PDict kvs) t)"
    by (simp add: status_at_const)
  obtain r2 s2 where nd: "not_done E path ids s1 = (r2, s2)"
    by (cases "not_done E path ids s1") auto
  from Cons.IH[of s1] nd
  have "r2 = Returns (filter (\<lambda>k. status_of (PDict kvs) k \<noteq> Some ''done'') ids)" by simp
  with ts res nd show ?case by simp
qed

lemma task_ids_const:
  assumes "files E (loaded s) = Inr (PDict kvs)"
  shows "fst (task_ids_from_state E path s)
           = Returns (filter (\<lambda>key. key \<noteq> ''schema_version'') (map fst kvs))"
  using assms by (cases kvs) (simp_all add: task_ids_from_state_def load_tasks_state_def Let_def)

text \<open>
  C7. When the task-state file holds the same dictionary at every read, the task
  ids scheduled in all-pending mode are the keys of that dictionary in their order,
  without the key \<^verbatim>\<open>schema_version\<close> and without the tasks whose status is \<^verbatim>\<open>done\<close>; a
  task with no readable status is kept. \<open>main\<close> hands exactly this list on.
\<close>

theorem all_pending_task_ids:
  "(\<forall>n. files E n = Inr (PDict kvs)) \<longrightarrow>
     fst (all_task_ids E path s)
       = Returns (filter (\<lambda>k. k \<noteq> ''schema_version'' \<and> status_of (PDict kvs) k \<noteq> Some ''done'')
                    (map fst kvs))
     \<and> (k \<in> set (map fst kvs) \<and> k \<noteq> ''schema_version'' \<and> status_of (PDict kvs) k = None
          \<longrightarrow> k \<in> set (filter (\<lambda>k. k \<noteq> ''schema_version''
                                    \<and> status_of (PDict kvs) k \<noteq> Some ''done'') (map fst kvs)))
     \<and> (all_pending a \<and> given (tasks a) = []
          \<longrightarrow> main E a s
              = scheduled E a
                  (filter (\<lambda>k. k \<noteq> ''schema_version'' \<and> status_of (PDict kvs) k \<noteq> Some ''done'')
                     (map fst kvs))
                  (snd (all_task_ids E (tasks_state a) s)))"
proof
  assume c: "\<forall>n. files E n = Inr (PDict kvs)"
  have ids: "fst (all_task_ids E p s)
       = Returns (filter (\<lambda>k. k \<noteq> ''schema_version'' \<and> status_of (PDict kvs) k \<noteq> Some ''done'')
                    (map fst kvs))" for p
  proof -
    obtain r s1 where t: "task_ids_from_state E p s = (r, s1)"
      by (cases "task_ids_from_state E p s") auto
    from task_ids_const[of E s kvs p] c t
    have r: "r = Returns (filter (\<lambda>key. key \<noteq> ''schema_version'') (map fst kvs))" by simp
    from not_done_const[OF c, of p "filter (\<lambda>key. key \<noteq> ''schema_version'') (map fst kvs)" s1] t r
    show ?thesis by (simp add: all_task_ids_def conj_commute)
  qed
  have m: "main E a s
              = scheduled E a
                  (filter (\<lambda>k. k \<noteq> ''schema_version'' \<and> status_of (PDict kvs) k \<noteq> Some ''done'')
                     (map fst kvs))
                  (snd (all_task_ids E (tasks_state a) s))"
    if "all_pending a \<and> given (tasks a) = []"
  proof -
    obtain r s1 where t: "all_task_ids E (tasks_state a) s = (r, s1)"
      by (cases "all_task_ids E (tasks_state a) s") auto
    with ids[of "tasks_state a"] that show ?thesis by (simp add: main_def)
  qed
  from ids[of path] m show
    "fst (all_task_ids E path s)
       = Returns (filter (\<lambda>k. k \<noteq> ''schema_version'' \<and> status_of (PDict kvs) k \<noteq> Some ''done'')
                    (map fst kvs))
     \<and> (k \<in> set (map fst kvs) \<and> k \<noteq> ''schema_version'' \<and> status_of (PDict kvs) k = None
          \<longrightarrow> k \<in> set (filter (\<lambda>k. k \<noteq> ''schema_version''
                                    \<and> status_of (PDict kvs) k \<noteq> Some ''done'') (map fst kvs)))
     \<and> (all_pending a \<and> given (tasks a) = []
          \<longrightarrow> main E a s
              = scheduled E a
                  (filter (\<lambda>k. k \<noteq> ''schema_version'' \<and> status_of (PDict kvs) k \<noteq> Some ''done'')
                     (map fst kvs))
                  (snd (all_task_ids E (tasks_state a) s)))"
    by auto
qed

theorem all_pending_task_ids_witness:
  "(\<forall>n. files (sample_env (\<lambda>n. quiet 0)
            (\<lambda>n. Inr (PDict [(''schema_version'', PInt 1),
                              (''T-001'', PDict [(''status'', PStr ''done'')]),
                              (''T-002'', PDict [(''status'', PStr ''ready'')]),
                              (''T-003'', PStr ''broken'')]))) n
        = Inr (PDict [(''schema_version'', PInt 1),
                      (''T-001'', PDict [(''status'', PStr ''done'')]),
                      (''T-002'', PDict [(''status'', PStr ''ready'')]),
                      (''T-003'', PStr ''broken'')]))
   \<and> fst (all_task_ids (sample_env (\<lambda>n. quiet 0)
            (\<lambda>n. Inr (PDict [(''schema_version'', PInt 1),
                              (''T-001'', PDict [(''status'', PStr ''done'')]),
                              (''T-002'', PDict [(''status'', PStr ''ready'')]),
                              (''T-003'', PStr ''broken'')])))
          ''agents/context/tasks_state.yaml'' start)
       = Returns [''T-002'', ''T-003'']"
  using all_pending_task_ids[of "sample_env (\<lambda>n. quiet 0)
            (\<lambda>n. Inr (PDict [(''schema_version'', PInt 1),
                              (''T-001'', PDict [(''status'', PStr ''done'')]),
                              (''T-002'', PDict [(''status'', PStr ''ready'')]),
                              (''T-003'', PStr ''broken'')]))"
      "[(''schema_version'', PInt 1),
        (''T-001'', PDict [(''status'', PStr ''done'')]),
        (''T-002'', PDict [(''status'', PStr ''ready'')]),
        (''T-003'', PStr ''broken'')]"
      "''agents/context/tasks_state.yaml''" start "''T-003''"
      "\<lparr>prompt = [], tasks = None, all_pending = True,
        tasks_state = ''agents/context/tasks_state.yaml'', max_rounds_arg = 3\<rparr>"]
  by (simp add: sample_env_def status_of_def)

lemma review_round_code:
  "review_round E path m t r summary s = (Returns (Return c), s') \<Longrightarrow> c \<noteq> 0"
  by (auto simp: review_round_def Let_def
      split: prod.splits outcome.splits ret.splits if_splits)

lemma one_round_code:
  "one_round E path m t r fb s = (Returns (Return c), s') \<Longrightarrow> c \<noteq> 0"
  by (auto simp: one_round_def Let_def
      split: prod.splits outcome.splits ret.splits if_splits dest: review_round_code)

lemma task_loop_code:
  "task_loop E path m t r fb s = (Returns (Some c), s') \<Longrightarrow> c \<noteq> 0"
proof (induction E path m t r fb s rule: task_loop.induct)
  case (1 E path m t r fb s)
  show ?case
  proof (cases "r < m")
    case False
    with "1.prems" show ?thesis by (simp add: task_loop.simps[of E path m t r fb s])
  next
    case True
    obtain res s1 where o: "one_round E path m t r fb s = (res, s1)"
      by (cases "one_round E path m t r fb s") auto
    show ?thesis
    proof (cases res)
      case Hangs
      with "1.prems" True o show ?thesis by (simp add: task_loop.simps[of E path m t r fb s])
    next
      case (Raises e)
      with "1.prems" True o show ?thesis by (simp add: task_loop.simps[of E path m t r fb s])
    next
      case (Returns st)
      show ?thesis
      proof (cases st)
        case Break
        with "1.prems" True o Returns show ?thesis
          by (simp add: task_loop.simps[of E path m t r fb s])
      next
        case (Return code)
        with "1.prems" True o Returns have "c = code"
          by (simp add: task_loop.simps[of E path m t r fb s])
        with o Returns Return one_round_code show ?thesis by blast
      next
        case (Continue f)
        with "1.prems" True o Returns
        have "task_loop E path m t (r + 1) (Some f) s1 = (Returns (Some c), s')"
          by (simp add: task_loop.simps[of E path m t r fb s])
        from "1.IH"[OF True o[symmetric] Returns Continue this] show ?thesis .
      qed
    qed
  qed
qed

lemma run_tasks_code_zero:
  "run_tasks E path m ts s = (Returns 0, s') \<Longrightarrow> completes_all E path m ts s"
proof (induction ts arbitrary: s)
  case Nil
  then show ?case by simp
next
  case (Cons t ts)
  obtain res s1 where l: "task_loop E path m t 0 None (print_out (''Starting task '' @ t) s) = (res, s1)"
    by (cases "task_loop E path m t 0 None (print_out (''Starting task '' @ t) s)") auto
  show ?case
  proof (cases res)
    case Hangs
    with Cons.prems l show ?thesis by simp
  next
    case (Raises e)
    with Cons.prems l show ?thesis by simp
  next
    case (Returns v)
    show ?thesis
    proof (cases v)
      case None
      with Cons l Returns show ?thesis by simp
    next
      case (Some c)
      with Cons.prems l Returns have "c = 0" by simp
      with task_loop_code l Returns Some show ?thesis by blast
    qed
  qed
qed

lemma completes_all_zero:
  "completes_all E path m ts s \<Longrightarrow> fst (run_tasks E path m ts s) = Returns 0"
proof (induction ts arbitrary: s)
  case Nil
  then show ?case by simp
next
  case (Cons t ts)
  then show ?case
    by (auto split: prod.splits outcome.splits option.splits)
qed

lemma run_tasks_append:
  "run_tasks E path m pre s = (Returns 0, s1)
     \<Longrightarrow> run_tasks E path m (pre @ post) s = run_tasks E path m post s1"
proof (induction pre arbitrary: s)
  case Nil
  then show ?case by simp
next
  case (Cons t pre)
  obtain res s2 where l: "task_loop E path m t 0 None (print_out (''Starting task '' @ t) s) = (res, s2)"
    by (cases "task_loop E path m t 0 None (print_out (''Starting task '' @ t) s)") auto
  show ?case
  proof (cases res)
    case Hangs
    with Cons.prems l show ?thesis by simp
  next
    case (Raises e)
    with Cons.prems l show ?thesis by simp
  next
    case (Returns v)
    show ?thesis
    proof (cases v)
      case None
      with Cons l Returns show ?thesis by simp
    next
      case (Some c)
      with Cons.prems l Returns have "c = 0" by simp
      with task_loop_code l Returns Some show ?thesis by blast
    qed
  qed
qed

text \<open>
  C6. When the tasks before \<open>t\<close> have run to completion and the loop of \<open>t\<close> returns
  a code, \<open>run_scheduler\<close> returns that code, which is not 0, in the very state the loop
  of \<open>t\<close> left: the tasks after \<open>t\<close> add nothing, and the run is the same as if they were
  not in the list. The result is 0 exactly when every task of the list completes.
\<close>

theorem abort_stops_the_run:
  "(run_tasks E path m pre s = (Returns 0, s1)
      \<and> task_loop E path m t 0 None (print_out (''Starting task '' @ t) s1) = (Returns (Some c), s2)
     \<longrightarrow> run_scheduler E (pre @ t # rest) path m s = (Returns c, s2) \<and> c \<noteq> 0
         \<and> run_scheduler E (pre @ t # rest) path m s = run_scheduler E (pre @ [t]) path m s)
   \<and> (completes_all E path m ts s \<longrightarrow> fst (run_scheduler E ts path m s) = Returns 0)
   \<and> (fst (run_scheduler E ts path m s) = Returns 0 \<longrightarrow> completes_all E path m ts s)"
proof (intro conjI impI)
  assume a: "run_tasks E path m pre s = (Returns 0, s1)
      \<and> task_loop E path m t 0 None (print_out (''Starting task '' @ t) s1) = (Returns (Some c), s2)"
  then have r: "run_tasks E path m (pre @ t # xs) s = (Returns c, s2)" for xs
    by (simp add: run_tasks_append)
  from r[of rest] show "run_scheduler E (pre @ t # rest) path m s = (Returns c, s2)"
    by (simp add: run_scheduler_def)
  from a task_loop_code show "c \<noteq> 0" by blast
  from r[of rest] r[of "[]"]
  show "run_scheduler E (pre @ t # rest) path m s = run_scheduler E (pre @ [t]) path m s"
    by (simp add: run_scheduler_def)
next
  assume "completes_all E path m ts s"
  then show "fst (run_scheduler E ts path m s) = Returns 0"
    by (simp add: run_scheduler_def completes_all_zero)
next
  assume "fst (run_scheduler E ts path m s) = Returns 0"
  then have "run_tasks E path m ts s = (Returns 0, snd (run_tasks E path m ts s))"
    by (simp add: run_scheduler_def prod_eq_iff)
  then show "completes_all E path m ts s" by (rule run_tasks_code_zero)
qed

lemma run_codexE:
  "run_codex E p t r s = (res, s1) \<Longrightarrow>
     res = round_exit E (launched s) \<and> launched s1 = Suc (launched s) \<and> loaded s1 = loaded s
     \<and> calls (trace s1) = calls (trace s) @ [Codex p t r]"
  by (simp add: run_codexD)

lemma task_statusE:
  "task_status E path t s = (res, s1) \<Longrightarrow>
     res = status_at E (loaded s) t \<and> launched s1 = launched s \<and> loaded s1 = Suc (loaded s)
     \<and> calls (trace s1) = calls (trace s) @ Load path
          # (case res of Returns v \<Rightarrow> [Status t v] | _ \<Rightarrow> [])"
  by (simp add: task_statusD)

lemma review_round_result:
  assumes rv: "round_exit E (launched s) = Returns (Pair 0 rvsum)"
    and st: "status_at E (loaded s) t = Returns status"
  shows "\<exists>s'. review_round E path m t r exsum s
             = (Returns (if status = Some ''done'' then Break
                         else if status = Some ''request_changes''
                         then (if r + 1 \<ge> m then Return 1
                               else Continue (if nonempty rvsum then the rvsum
                                              else ''No reviewer summary captured.''))
                         else Return 1), s')
           \<and> launched s' = Suc (launched s) \<and> loaded s' = Suc (loaded s)
           \<and> calls (trace s') = calls (trace s)
                @ [Codex (build_reviewer_prompt (cwd E) t exsum) (Some t) (Some ''reviewer''),
                   Load path, Status t status,
                   IMessage (notification ''reviewer'' t status rvsum)]"
proof -
  obtain res s1 where rc: "run_codex E (build_reviewer_prompt (cwd E) t exsum) (Some t)
      (Some ''reviewer'') s = (res, s1)"
    by (cases "run_codex E (build_reviewer_prompt (cwd E) t exsum) (Some t) (Some ''reviewer'') s") auto
  note d1 = run_codexD[OF rc]
  obtain res2 s2 where ts: "task_status E path t s1 = (res2, s2)"
    by (cases "task_status E path t s1") auto
  note d2 = task_statusD[OF ts]
  from d1 rv have res: "res = Returns (Pair 0 rvsum)" by simp
  from d2 d1 st have res2: "res2 = Returns status" by simp
  from rc ts res res2 d1 d2 show ?thesis
    by (simp add: review_round_def Let_def)
qed

lemma one_round_result:
  assumes ex: "round_exit E (launched s) = Returns (Pair 0 exsum)"
    and st: "status_at E (loaded s) t = Returns (Some ''ready_for_review'')"
    and rv: "round_exit E (Suc (launched s)) = Returns (Pair 0 rvsum)"
    and st2: "status_at E (Suc (loaded s)) t = Returns status"
  shows "\<exists>s'. one_round E path m t r fb s
             = (Returns (if status = Some ''done'' then Break
                         else if status = Some ''request_changes''
                         then (if r + 1 \<ge> m then Return 1
                               else Continue (if nonempty rvsum then the rvsum
                                              else ''No reviewer summary captured.''))
                         else Return 1), s')
           \<and> launched s' = Suc (Suc (launched s)) \<and> loaded s' = Suc (Suc (loaded s))
           \<and> calls (trace s') = calls (trace s)
                @ [Codex (build_executor_prompt (cwd E) t fb) (Some t) (Some ''executor''),
                   Load path, Status t (Some ''ready_for_review''),
                   IMessage (notification ''executor'' t (Some ''ready_for_review'') exsum),
                   Codex (build_reviewer_prompt (cwd E) t exsum) (Some t) (Some ''reviewer''),
                   Load path, Status t status,
                   IMessage (notification ''reviewer'' t status rvsum)]"
proof -
  obtain res s1 where rc: "run_codex E (build_executor_prompt (cwd E) t fb) (Some t)
      (Some ''executor'') s = (res, s1)"
    by (cases "run_codex E (build_executor_prompt (cwd E) t fb) (Some t) (Some ''executor'') s") auto
  note d1 = run_codexD[OF rc]
  obtain res2 s2 where ts: "task_status E path t s1 = (res2, s2)"
    by (cases "task_status E path t s1") auto
  note d2 = task_statusD[OF ts]
  from d1 ex have res: "res = Returns (Pair 0 exsum)" by simp
  from d2 d1 st have res2: "res2 = Returns (Some ''ready_for_review'')" by simp
  let ?s3 = "send_imessage E ''executor'' t (Some ''ready_for_review'') exsum s2"
  from d1 d2 rv st2
  have "round_exit E (launched ?s3) = Returns (Pair 0 rvsum)"
    and "status_at E (loaded ?s3) t = Returns status" by simp_all
  from review_round_result[OF this, of path m r exsum] obtain s' where
    rr: "review_round E path m t r exsum ?s3
             = (Returns (if status = Some ''done'' then Break
                         else if status = Some ''request_changes''
                         then (if r + 1 \<ge> m then Return 1
                               else Continue (if nonempty rvsum then the rvsum
                                              else ''No reviewer summary captured.''))
                         else Return 1), s')"
    and l: "launched s' = Suc (launched ?s3)" "loaded s' = Suc (loaded ?s3)"
    and c: "calls (trace s') = calls (trace ?s3)
                @ [Codex (build_reviewer_prompt (cwd E) t exsum) (Some t) (Some ''reviewer''),
                   Load path, Status t status,
                   IMessage (notification ''reviewer'' t status rvsum)]"
    by blast
  from rc ts res res2 rr have "one_round E path m t r fb s
             = (Returns (if status = Some ''done'' then Break
                         else if status = Some ''request_changes''
                         then (if r + 1 \<ge> m then Return 1
                               else Continue (if nonempty rvsum then the rvsum
                                              else ''No reviewer summary captured.''))
                         else Return 1), s')"
    by (simp add: one_round_def Let_def)
  moreover from l d1 d2 have "launched s' = Suc (Suc (launched s))" "loaded s' = Suc (Suc (loaded s))"
    by simp_all
  moreover from c d1(4) d2(4) res2 have "calls (trace s') = calls (trace s)
                @ [Codex (build_executor_prompt (cwd E) t fb) (Some t) (Some ''executor''),
                   Load path, Status t (Some ''ready_for_review''),
                   IMessage (notification ''executor'' t (Some ''ready_for_review'') exsum),
                   Codex (build_reviewer_prompt (cwd E) t exsum) (Some t) (Some ''reviewer''),
                   Load path, Status t status,
                   IMessage (notification ''reviewer'' t status rvsum)]"
    by simp
  ultimately show ?thesis by blast
qed

lemma quiet_exit: "round_exit (sample_env (\<lambda>n. quiet c) fs) n = Returns (Pair c None)"
  by (simp add: sample_env_def quiet_def round_exit_def stream_process_def)

lemma alternating_exit: "round_exit (alternating xs ys) n = Returns (Pair 0 None)"
  by (simp add: alternating_def quiet_exit)

lemma registry_status:
  "status_at (sample_env ps (\<lambda>n. registry ts)) n t
     = Returns (case map_of ts t of Some status \<Rightarrow> Some status | None \<Rightarrow> None)"
  if "t \<noteq> ''schema_version''"
proof -
  have "map_of (map (\<lambda>(task_id, status). (task_id, PDict [(''status'', PStr status)])) ts) t
        = map_option (\<lambda>status. PDict [(''status'', PStr status)]) (map_of ts t)"
    by (induction ts) auto
  with that show ?thesis
    by (simp add: sample_env_def registry_def status_at_def status_of_def split: option.splits)
qed

lemma alternating_status:
  "status_at (alternating xs ys) n t
     = Returns (case map_of (if even n then xs else ys) t of
                  Some status \<Rightarrow> Some status | None \<Rightarrow> None)"
  if "t \<noteq> ''schema_version''"
  using registry_status[OF that, of "\<lambda>n. quiet 0" xs n] registry_status[OF that, of "\<lambda>n. quiet 0" ys n]
  by (simp add: alternating_def sample_env_def status_at_def)

theorem abort_stops_the_run_witness:
  "fst (run_tasks (alternating [(''T-001'', ''ready_for_review'')] [(''T-001'', ''done'')])
          ''agents/context/tasks_state.yaml'' 3 [''T-001''] start) = Returns 0
   \<and> fst (task_loop (alternating [(''T-001'', ''ready_for_review'')] [(''T-001'', ''done'')])
          ''agents/context/tasks_state.yaml'' 3 ''T-002'' 0 None
          (print_out ''Starting task T-002''
             (snd (run_tasks (alternating [(''T-001'', ''ready_for_review'')] [(''T-001'', ''done'')])
                     ''agents/context/tasks_state.yaml'' 3 [''T-001''] start)))) = Returns (Some 1)
   \<and> fst (run_scheduler (alternating [(''T-001'', ''ready_for_review'')] [(''T-001'', ''done'')])
          [''T-001'', ''T-002'', ''T-003''] ''agents/context/tasks_state.yaml'' 3 start) = Returns 1
   \<and> run_scheduler (alternating [(''T-001'', ''ready_for_review'')] [(''T-001'', ''done'')])
          [''T-001'', ''T-002'', ''T-003''] ''agents/context/tasks_state.yaml'' 3 start
       = run_scheduler (alternating [(''T-001'', ''ready_for_review'')] [(''T-001'', ''done'')])
          [''T-001'', ''T-002''] ''agents/context/tasks_state.yaml'' 3 start
   \<and> completes_all (alternating [(''T-001'', ''ready_for_review'')] [(''T-001'', ''done'')])
          ''agents/context/tasks_state.yaml'' 3 [''T-001''] start
   \<and> fst (run_scheduler (alternating [(''T-001'', ''ready_for_review'')] [(''T-001'', ''done'')])
          [''T-001''] ''agents/context/tasks_state.yaml'' 3 start) = Returns 0"
proof -
  let ?E = "alternating [(''T-001'', ''ready_for_review'')] [(''T-001'', ''done'')]"
  let ?p = "''agents/context/tasks_state.yaml''"
  let ?s0 = "print_out ''Starting task T-001'' start"
  have h: "round_exit ?E (launched ?s0) = Returns (Pair 0 None)"
    "status_at ?E (loaded ?s0) ''T-001'' = Returns (Some ''ready_for_review'')"
    "round_exit ?E (Suc (launched ?s0)) = Returns (Pair 0 None)"
    "status_at ?E (Suc (loaded ?s0)) ''T-001'' = Returns (Some ''done'')"
    by (simp_all add: alternating_exit alternating_status start_def)
  from one_round_result[OF h, of ?p 3 0 None]
  obtain s1 where o1: "one_round ?E ?p 3 ''T-001'' 0 None ?s0 = (Returns Break, s1)"
    and l1: "launched s1 = 2" "loaded s1 = 2"
    by (auto simp: start_def)
  from o1 have t1: "task_loop ?E ?p 3 ''T-001'' 0 None ?s0 = (Returns None, s1)"
    by (simp add: task_loop.simps[of _ _ _ _ 0])
  then have r1: "run_tasks ?E ?p 3 [''T-001''] start = (Returns 0, s1)" by simp
  let ?s2 = "print_out ''Starting task T-002'' s1"
  have h2: "round_exit ?E (launched ?s2) = Returns (Pair 0 None)"
    "status_at ?E (loaded ?s2) ''T-002'' = Returns None"
    "None \<noteq> Some ''ready_for_review''"
    using l1 by (simp_all add: alternating_exit alternating_status)
  from one_round_not_ready[OF h2, of ?p 3 0 None]
  obtain s2 where o2: "one_round ?E ?p 3 ''T-002'' 0 None ?s2 = (Returns (Return 1), s2)"
    by blast
  then have t2: "task_loop ?E ?p 3 ''T-002'' 0 None ?s2 = (Returns (Some 1), s2)"
    by (simp add: task_loop.simps[of _ _ _ _ 0])
  have c: "completes_all ?E ?p 3 [''T-001''] start" using t1 by simp
  note T = abort_stops_the_run[of ?E ?p 3 "[''T-001'']" start s1 "''T-002''" 1 s2 "[''T-003'']"
      "[''T-001'']"]
  from t2 have t2': "task_loop ?E ?p 3 ''T-002'' 0 None (print_out (''Starting task '' @ ''T-002'') s1)
      = (Returns (Some 1), s2)" by simp
  from T r1 t2'
  have "run_scheduler ?E ([''T-001''] @ ''T-002'' # [''T-003'']) ?p 3 start = (Returns 1, s2)"
    and "run_scheduler ?E ([''T-001''] @ ''T-002'' # [''T-003'']) ?p 3 start
         = run_scheduler ?E ([''T-001''] @ [''T-002'']) ?p 3 start"
    by blast+
  then have a: "run_scheduler ?E [''T-001'', ''T-002'', ''T-003''] ?p 3 start = (Returns 1, s2)"
    and b: "run_scheduler ?E [''T-001'', ''T-002'', ''T-003''] ?p 3 start
         = run_scheduler ?E [''T-001'', ''T-002''] ?p 3 start"
    by (simp_all only: append_Cons append_Nil)
  have f1: "fst (run_tasks ?E ?p 3 [''T-001''] start) = Returns 0"
    by (simp only: r1 fst_conv)
  have f2: "fst (task_loop ?E ?p 3 ''T-002'' 0 None
          (print_out ''Starting task T-002'' (snd (run_tasks ?E ?p 3 [''T-001''] start))))
        = Returns (Some 1)"
    by (simp only: r1 snd_conv t2 fst_conv)
  have f3: "fst (run_scheduler ?E [''T-001'', ''T-002'', ''T-003''] ?p 3 start) = Returns 1"
    by (simp only: a fst_conv)
  from T c have f6: "fst (run_scheduler ?E [''T-001''] ?p 3 start) = Returns 0" by blast
  from f1 f2 f3 b c f6 show ?thesis by (intro conjI)
qed

lemma rounds_of_simps [simp]:
  "rounds_of role t [] = []"
  "rounds_of role t (Codex p tk r # as)
     = (if tk = Some t \<and> r = Some role then Codex p tk r # rounds_of role t as
        else rounds_of role t as)"
  "rounds_of role t (Load path # as) = rounds_of role t as"
  "rounds_of role t (Status task v # as) = rounds_of role t as"
  "rounds_of role t (IMessage x # as) = rounds_of role t as"
  "rounds_of role t (Write h text # as) = rounds_of role t as"
  by (simp_all add: rounds_of_def)

lemma review_round_shape:
  assumes "review_round E path m t r exsum s = (res, s')"
  shows "\<exists>more. calls (trace s') = calls (trace s)
             @ Codex (build_reviewer_prompt (cwd E) t exsum) (Some t) (Some ''reviewer'') # more
           \<and> (\<forall>role t'. rounds_of role t' more = [])
           \<and> (\<forall>f. res = Returns (Continue f) \<longrightarrow>
                 f \<noteq> [] \<and> r + 1 < m
                 \<and> (\<exists>z. more = [Load path, Status t (Some ''request_changes''), IMessage z]))"
proof -
  obtain res1 s1 where rc: "run_codex E (build_reviewer_prompt (cwd E) t exsum) (Some t)
      (Some ''reviewer'') s = (res1, s1)"
    by (cases "run_codex E (build_reviewer_prompt (cwd E) t exsum) (Some t) (Some ''reviewer'') s") auto
  note d1 = run_codexD(4)[OF rc]
  obtain res2 s2 where ts: "task_status E path t s1 = (res2, s2)"
    by (cases "task_status E path t s1") auto
  note d2 = task_statusD(4)[OF ts]
  show ?thesis
  proof (cases "\<exists>summary. res1 = Returns (Pair 0 summary)")
    case False
    with assms rc d1 have "calls (trace s') = calls (trace s)
             @ Codex (build_reviewer_prompt (cwd E) t exsum) (Some t) (Some ''reviewer'') # []"
      and "\<forall>f. res \<noteq> Returns (Continue f)"
      by (auto simp: review_round_def split: outcome.splits ret.splits if_splits)
    then show ?thesis by (intro exI[of _ "[]"]) simp
  next
    case True
    then obtain summary where r1: "res1 = Returns (Pair 0 summary)" by blast
    show ?thesis
    proof (cases res2)
      case Hangs
      with assms rc ts r1 d1 d2 have "calls (trace s') = calls (trace s)
             @ Codex (build_reviewer_prompt (cwd E) t exsum) (Some t) (Some ''reviewer'') # [Load path]"
        and "\<forall>f. res \<noteq> Returns (Continue f)"
        by (auto simp: review_round_def)
      then show ?thesis by (intro exI[of _ "[Load path]"]) simp
    next
      case (Raises e)
      with assms rc ts r1 d1 d2 have "calls (trace s') = calls (trace s)
             @ Codex (build_reviewer_prompt (cwd E) t exsum) (Some t) (Some ''reviewer'') # [Load path]"
        and "\<forall>f. res \<noteq> Returns (Continue f)"
        by (auto simp: review_round_def)
      then show ?thesis by (intro exI[of _ "[Load path]"]) simp
    next
      case (Returns status)
      let ?more = "[Load path, Status t status, IMessage (notification ''reviewer'' t status summary)]"
      from assms rc ts r1 d1 d2 Returns have c: "calls (trace s') = calls (trace s)
             @ Codex (build_reviewer_prompt (cwd E) t exsum) (Some t) (Some ''reviewer'') # ?more"
        by (auto simp: review_round_def Let_def split: if_splits)
      from assms rc ts r1 Returns
      have k: "\<forall>f. res = Returns (Continue f) \<longrightarrow>
                 f \<noteq> [] \<and> r + 1 < m \<and> status = Some ''request_changes''"
        by (auto simp: review_round_def Let_def nonempty_def split: if_splits option.splits)
      from c k show ?thesis by (intro exI[of _ ?more]) auto
    qed
  qed
qed

lemma one_round_shape:
  assumes "one_round E path m t r fb s = (res, s')"
  shows "\<exists>more. calls (trace s') = calls (trace s)
             @ Codex (build_executor_prompt (cwd E) t fb) (Some t) (Some ''executor'') # more
           \<and> (\<forall>t'. rounds_of ''executor'' t' more = [])
           \<and> (\<forall>f. res = Returns (Continue f) \<longrightarrow>
                 f \<noteq> [] \<and> r + 1 < m
                 \<and> (\<exists>x p z. more = [Load path, Status t (Some ''ready_for_review''), IMessage x,
                                      Codex p (Some t) (Some ''reviewer''),
                                      Load path, Status t (Some ''request_changes''), IMessage z]))"
proof -
  obtain res1 s1 where rc: "run_codex E (build_executor_prompt (cwd E) t fb) (Some t)
      (Some ''executor'') s = (res1, s1)"
    by (cases "run_codex E (build_executor_prompt (cwd E) t fb) (Some t) (Some ''executor'') s") auto
  note d1 = run_codexD(4)[OF rc]
  obtain res2 s2 where ts: "task_status E path t s1 = (res2, s2)"
    by (cases "task_status E path t s1") auto
  note d2 = task_statusD(4)[OF ts]
  show ?thesis
  proof (cases "\<exists>summary. res1 = Returns (Pair 0 summary)")
    case False
    with assms rc d1 have "calls (trace s') = calls (trace s)
             @ Codex (build_executor_prompt (cwd E) t fb) (Some t) (Some ''executor'') # []"
      and "\<forall>f. res \<noteq> Returns (Continue f)"
      by (auto simp: one_round_def split: outcome.splits ret.splits if_splits)
    then show ?thesis by (intro exI[of _ "[]"]) simp
  next
    case True
    then obtain summary where r1: "res1 = Returns (Pair 0 summary)" by blast
    show ?thesis
    proof (cases res2)
      case Hangs
      with assms rc ts r1 d1 d2 have "calls (trace s') = calls (trace s)
             @ Codex (build_executor_prompt (cwd E) t fb) (Some t) (Some ''executor'') # [Load path]"
        and "\<forall>f. res \<noteq> Returns (Continue f)"
        by (auto simp: one_round_def)
      then show ?thesis by (intro exI[of _ "[Load path]"]) simp
    next
      case (Raises e)
      with assms rc ts r1 d1 d2 have "calls (trace s') = calls (trace s)
             @ Codex (build_executor_prompt (cwd E) t fb) (Some t) (Some ''executor'') # [Load path]"
        and "\<forall>f. res \<noteq> Returns (Continue f)"
        by (auto simp: one_round_def)
      then show ?thesis by (intro exI[of _ "[Load path]"]) simp
    next
      case (Returns status)
      let ?s3 = "send_imessage E ''executor'' t status summary s2"
      let ?pre = "[Load path, Status t status, IMessage (notification ''executor'' t status summary)]"
      from d1 d2 Returns have c3: "calls (trace ?s3) = calls (trace s)
             @ Codex (build_executor_prompt (cwd E) t fb) (Some t) (Some ''executor'') # ?pre"
        by simp
      show ?thesis
      proof (cases "status = Some ''ready_for_review''")
        case False
        with assms rc ts r1 Returns have "calls (trace s') = calls (trace ?s3)"
          and "\<forall>f. res \<noteq> Returns (Continue f)"
          by (auto simp: one_round_def Let_def)
        with c3 show ?thesis by (intro exI[of _ ?pre]) simp
      next
        case True
        with assms rc ts r1 Returns
        have rr: "review_round E path m t r summary ?s3 = (res, s')"
          by (simp add: one_round_def Let_def)
        from review_round_shape[OF rr] obtain more where
          m1: "calls (trace s') = calls (trace ?s3)
             @ Codex (build_reviewer_prompt (cwd E) t summary) (Some t) (Some ''reviewer'') # more"
          and m2: "\<forall>role t'. rounds_of role t' more = []"
          and m3: "\<forall>f. res = Returns (Continue f) \<longrightarrow>
                 f \<noteq> [] \<and> r + 1 < m
                 \<and> (\<exists>z. more = [Load path, Status t (Some ''request_changes''), IMessage z])"
          by blast
        let ?more = "?pre @ Codex (build_reviewer_prompt (cwd E) t summary) (Some t)
                       (Some ''reviewer'') # more"
        from m1 c3 have "calls (trace s') = calls (trace s)
             @ Codex (build_executor_prompt (cwd E) t fb) (Some t) (Some ''executor'') # ?more"
          by simp
        moreover from m2 have "\<forall>t'. rounds_of ''executor'' t' ?more = []"
          by (simp add: rounds_of_append)
        moreover from m3 True have "\<forall>f. res = Returns (Continue f) \<longrightarrow>
                 f \<noteq> [] \<and> r + 1 < m
                 \<and> (\<exists>x p z. ?more = [Load path, Status t (Some ''ready_for_review''), IMessage x,
                                      Codex p (Some t) (Some ''reviewer''),
                                      Load path, Status t (Some ''request_changes''), IMessage z])"
          by auto
        ultimately show ?thesis by (intro exI[of _ ?more]) blast
      qed
    qed
  qed
qed

lemma one_round_executor:
  assumes "one_round E path m t r fb s = (res, s')"
  shows "rounds_of ''executor'' t (trace s')
           = rounds_of ''executor'' t (trace s)
               @ [Codex (build_executor_prompt (cwd E) t fb) (Some t) (Some ''executor'')]"
proof -
  from one_round_shape[OF assms] obtain more where
    c: "calls (trace s') = calls (trace s)
             @ Codex (build_executor_prompt (cwd E) t fb) (Some t) (Some ''executor'') # more"
    and n: "\<forall>t'. rounds_of ''executor'' t' more = []"
    by blast
  from arg_cong[OF c, of "rounds_of ''executor'' t"] n show ?thesis
    by (simp add: rounds_of_calls rounds_of_append)
qed

lemma task_loop_executor_bound:
  "task_loop E path m t r fb s = (res, s') \<Longrightarrow>
     length (rounds_of ''executor'' t (trace s'))
       \<le> length (rounds_of ''executor'' t (trace s)) + nat (m - r)"
proof (induction E path m t r fb s rule: task_loop.induct)
  case (1 E path m t r fb s)
  show ?case
  proof (cases "r < m")
    case False
    with "1.prems" show ?thesis by (simp add: task_loop.simps[of E path m t r fb s])
  next
    case True
    obtain res1 s1 where o: "one_round E path m t r fb s = (res1, s1)"
      by (cases "one_round E path m t r fb s") auto
    from one_round_executor[OF o]
    have n1: "length (rounds_of ''executor'' t (trace s1))
                = length (rounds_of ''executor'' t (trace s)) + 1" by simp
    show ?thesis
    proof (cases "\<exists>f. res1 = Returns (Continue f)")
      case False
      with "1.prems" True o have "s' = s1"
        by (auto simp: task_loop.simps[of E path m t r fb s] split: outcome.splits step.splits)
      with n1 True show ?thesis by simp
    next
      case c: True
      then obtain f where f: "res1 = Returns (Continue f)" by blast
      with "1.prems" True o
      have "task_loop E path m t (r + 1) (Some f) s1 = (res, s')"
        by (simp add: task_loop.simps[of E path m t r fb s])
      from "1.IH"[OF True o[symmetric] f refl this] n1 True show ?thesis by simp
    qed
  qed
qed

lemma changes_requested_rounds:
  assumes "\<forall>i < k. (\<exists>e. round_exit E (launched s + 2 * i) = Returns (Pair 0 e))
              \<and> status_at E (loaded s + 2 * i) t = Returns (Some ''ready_for_review'')
              \<and> (\<exists>v. round_exit E (launched s + 2 * i + 1) = Returns (Pair 0 v))
              \<and> status_at E (loaded s + 2 * i + 1) t = Returns (Some ''request_changes'')"
    and "k = nat (m - r)" and "r < m"
  shows "\<exists>s'. task_loop E path m t r fb s = (Returns (Some 1), s')
           \<and> launched s' = launched s + 2 * k
           \<and> length (rounds_of ''executor'' t (trace s'))
               = length (rounds_of ''executor'' t (trace s)) + k
           \<and> length (rounds_of ''reviewer'' t (trace s'))
               = length (rounds_of ''reviewer'' t (trace s)) + k"
  using assms
proof (induction k arbitrary: r fb s)
  case 0
  then show ?case by simp
next
  case (Suc k)
  from Suc.prems(1) have "0 < Suc k \<longrightarrow> (\<exists>e. round_exit E (launched s + 2 * 0) = Returns (Pair 0 e))
              \<and> status_at E (loaded s + 2 * 0) t = Returns (Some ''ready_for_review'')
              \<and> (\<exists>v. round_exit E (launched s + 2 * 0 + 1) = Returns (Pair 0 v))
              \<and> status_at E (loaded s + 2 * 0 + 1) t = Returns (Some ''request_changes'')"
    by blast
  then obtain e v where h: "round_exit E (launched s) = Returns (Pair 0 e)"
    "status_at E (loaded s) t = Returns (Some ''ready_for_review'')"
    "round_exit E (Suc (launched s)) = Returns (Pair 0 v)"
    "status_at E (Suc (loaded s)) t = Returns (Some ''request_changes'')"
    by auto
  let ?f = "if nonempty v then the v else ''No reviewer summary captured.''"
  from one_round_result[OF h, of path m r fb] obtain s1 where
    o: "one_round E path m t r fb s
          = (Returns (if r + 1 \<ge> m then Return 1 else Continue ?f), s1)"
    and l: "launched s1 = Suc (Suc (launched s))" "loaded s1 = Suc (Suc (loaded s))"
    and c: "calls (trace s1) = calls (trace s)
                @ [Codex (build_executor_prompt (cwd E) t fb) (Some t) (Some ''executor''),
                   Load path, Status t (Some ''ready_for_review''),
                   IMessage (notification ''executor'' t (Some ''ready_for_review'') e),
                   Codex (build_reviewer_prompt (cwd E) t e) (Some t) (Some ''reviewer''),
                   Load path, Status t (Some ''request_changes''),
                   IMessage (notification ''reviewer'' t (Some ''request_changes'') v)]"
    by auto
  from arg_cong[OF c, of "rounds_of ''executor'' t"]
  have ne: "length (rounds_of ''executor'' t (trace s1))
              = length (rounds_of ''executor'' t (trace s)) + 1"
    by (simp add: rounds_of_calls rounds_of_append)
  from arg_cong[OF c, of "rounds_of ''reviewer'' t"]
  have nr: "length (rounds_of ''reviewer'' t (trace s1))
              = length (rounds_of ''reviewer'' t (trace s)) + 1"
    by (simp add: rounds_of_calls rounds_of_append)
  show ?case
  proof (cases "r + 1 \<ge> m")
    case True
    with Suc.prems(2,3) have k: "k = 0" by simp
    from o True Suc.prems(3) have "task_loop E path m t r fb s = (Returns (Some 1), s1)"
      by (simp add: task_loop.simps[of E path m t r fb s])
    with l ne nr k show ?thesis by simp
  next
    case False
    with Suc.prems(2) have k: "k = nat (m - (r + 1))" and lt: "r + 1 < m" by simp_all
    have "\<forall>i < k. (\<exists>e. round_exit E (launched s1 + 2 * i) = Returns (Pair 0 e))
              \<and> status_at E (loaded s1 + 2 * i) t = Returns (Some ''ready_for_review'')
              \<and> (\<exists>v. round_exit E (launched s1 + 2 * i + 1) = Returns (Pair 0 v))
              \<and> status_at E (loaded s1 + 2 * i + 1) t = Returns (Some ''request_changes'')"
    proof (intro allI impI)
      fix i assume "i < k"
      then have "Suc i < Suc k" by simp
      with Suc.prems(1) have "(\<exists>e. round_exit E (launched s + 2 * Suc i) = Returns (Pair 0 e))
              \<and> status_at E (loaded s + 2 * Suc i) t = Returns (Some ''ready_for_review'')
              \<and> (\<exists>v. round_exit E (launched s + 2 * Suc i + 1) = Returns (Pair 0 v))
              \<and> status_at E (loaded s + 2 * Suc i + 1) t = Returns (Some ''request_changes'')"
        by blast
      with l show "(\<exists>e. round_exit E (launched s1 + 2 * i) = Returns (Pair 0 e))
              \<and> status_at E (loaded s1 + 2 * i) t = Returns (Some ''ready_for_review'')
              \<and> (\<exists>v. round_exit E (launched s1 + 2 * i + 1) = Returns (Pair 0 v))
              \<and> status_at E (loaded s1 + 2 * i + 1) t = Returns (Some ''request_changes'')"
        by simp
    qed
    from Suc.IH[OF this k lt, of "Some ?f"] obtain s' where
      t: "task_loop E path m t (r + 1) (Some ?f) s1 = (Returns (Some 1), s')"
      and l': "launched s' = launched s1 + 2 * k"
      and ne': "length (rounds_of ''executor'' t (trace s'))
               = length (rounds_of ''executor'' t (trace s1)) + k"
      and nr': "length (rounds_of ''reviewer'' t (trace s'))
               = length (rounds_of ''reviewer'' t (trace s1)) + k"
      by blast
    from o False Suc.prems(3) t have "task_loop E path m t r fb s = (Returns (Some 1), s')"
      by (simp add: task_loop.simps[of E path m t r fb s])
    with l l' ne ne' nr nr' show ?thesis by simp
  qed
qed

text \<open>
  C3. From the head of the loop of a task with \<open>rounds < max_rounds\<close> (\<open>rounds\<close> is 0
  when the task starts): if in each of the next \<open>max_rounds - rounds\<close> rounds the executor
  and the reviewer exit with code 0, the status after the executor is
  \<^verbatim>\<open>ready_for_review\<close> and the status after the reviewer is \<^verbatim>\<open>request_changes\<close>, the run
  returns 1 after exactly that many executor rounds and as many reviewer rounds of the
  task. Whatever the environment does, one loop never runs more executor rounds than
  that.
\<close>

theorem changes_requested_budget:
  "(rounds < m
      \<and> (\<forall>i < nat (m - rounds).
            (\<exists>e. round_exit E (launched s + 2 * i) = Returns (Pair 0 e))
            \<and> status_at E (loaded s + 2 * i) t = Returns (Some ''ready_for_review'')
            \<and> (\<exists>v. round_exit E (launched s + 2 * i + 1) = Returns (Pair 0 v))
            \<and> status_at E (loaded s + 2 * i + 1) t = Returns (Some ''request_changes''))
    \<longrightarrow> (\<exists>s'. run_from E path m t rest rounds fb s = (Returns 1, s')
           \<and> launched s' = launched s + 2 * nat (m - rounds)
           \<and> length (rounds_of ''executor'' t (trace s'))
               = length (rounds_of ''executor'' t (trace s)) + nat (m - rounds)
           \<and> length (rounds_of ''reviewer'' t (trace s'))
               = length (rounds_of ''reviewer'' t (trace s)) + nat (m - rounds)))
   \<and> (task_loop E path m t rounds fb s = (res, s2)
        \<longrightarrow> length (rounds_of ''executor'' t (trace s2))
              \<le> length (rounds_of ''executor'' t (trace s)) + nat (m - rounds))"
proof (intro conjI impI)
  assume a: "rounds < m
      \<and> (\<forall>i < nat (m - rounds).
            (\<exists>e. round_exit E (launched s + 2 * i) = Returns (Pair 0 e))
            \<and> status_at E (loaded s + 2 * i) t = Returns (Some ''ready_for_review'')
            \<and> (\<exists>v. round_exit E (launched s + 2 * i + 1) = Returns (Pair 0 v))
            \<and> status_at E (loaded s + 2 * i + 1) t = Returns (Some ''request_changes''))"
  then have h: "\<forall>i < nat (m - rounds).
            (\<exists>e. round_exit E (launched s + 2 * i) = Returns (Pair 0 e))
            \<and> status_at E (loaded s + 2 * i) t = Returns (Some ''ready_for_review'')
            \<and> (\<exists>v. round_exit E (launched s + 2 * i + 1) = Returns (Pair 0 v))
            \<and> status_at E (loaded s + 2 * i + 1) t = Returns (Some ''request_changes'')"
    and lt: "rounds < m" by blast+
  from changes_requested_rounds[OF h refl lt, of path fb] obtain s' where
    t: "task_loop E path m t rounds fb s = (Returns (Some 1), s')"
    and r: "launched s' = launched s + 2 * nat (m - rounds)"
      "length (rounds_of ''executor'' t (trace s'))
               = length (rounds_of ''executor'' t (trace s)) + nat (m - rounds)"
      "length (rounds_of ''reviewer'' t (trace s'))
               = length (rounds_of ''reviewer'' t (trace s)) + nat (m - rounds)"
    by blast
  from t have "run_from E path m t rest rounds fb s = (Returns 1, s')"
    by (simp add: run_from_def)
  with r show "\<exists>s'. run_from E path m t rest rounds fb s = (Returns 1, s')
           \<and> launched s' = launched s + 2 * nat (m - rounds)
           \<and> length (rounds_of ''executor'' t (trace s'))
               = length (rounds_of ''executor'' t (trace s)) + nat (m - rounds)
           \<and> length (rounds_of ''reviewer'' t (trace s'))
               = length (rounds_of ''reviewer'' t (trace s)) + nat (m - rounds)"
    by blast
next
  assume "task_loop E path m t rounds fb s = (res, s2)"
  then show "length (rounds_of ''executor'' t (trace s2))
              \<le> length (rounds_of ''executor'' t (trace s)) + nat (m - rounds)"
    by (rule task_loop_executor_bound)
qed

theorem changes_requested_budget_witness:
  "(0::int) < 3
   \<and> list_all (\<lambda>i. round_exit (alternating [(''T-001'', ''ready_for_review'')]
                                   [(''T-001'', ''request_changes'')]) i = Returns (Pair 0 None))
        [0, 1, 2, 3, 4, 5]
   \<and> list_all (\<lambda>i. status_at (alternating [(''T-001'', ''ready_for_review'')]
                                  [(''T-001'', ''request_changes'')]) i ''T-001''
                       = Returns (Some (if even i then ''ready_for_review'' else ''request_changes'')))
        [0, 1, 2, 3, 4, 5]
   \<and> fst (run_scheduler (alternating [(''T-001'', ''ready_for_review'')]
                           [(''T-001'', ''request_changes'')])
            [''T-001'', ''T-002''] ''agents/context/tasks_state.yaml'' 3 start) = Returns 1
   \<and> length (rounds_of ''executor'' ''T-001''
        (trace (snd (run_scheduler (alternating [(''T-001'', ''ready_for_review'')]
                           [(''T-001'', ''request_changes'')])
            [''T-001'', ''T-002''] ''agents/context/tasks_state.yaml'' 3 start)))) = 3
   \<and> launched (snd (run_scheduler (alternating [(''T-001'', ''ready_for_review'')]
                           [(''T-001'', ''request_changes'')])
            [''T-001'', ''T-002''] ''agents/context/tasks_state.yaml'' 3 start)) = 6"
proof -
  let ?E = "alternating [(''T-001'', ''ready_for_review'')] [(''T-001'', ''request_changes'')]"
  let ?p = "''agents/context/tasks_state.yaml''"
  let ?s = "print_out (''Starting task '' @ ''T-001'') start"
  have h: "(0::int) < 3
      \<and> (\<forall>i < nat (3 - 0).
            (\<exists>e. round_exit ?E (launched ?s + 2 * i) = Returns (Pair 0 e))
            \<and> status_at ?E (loaded ?s + 2 * i) ''T-001'' = Returns (Some ''ready_for_review'')
            \<and> (\<exists>v. round_exit ?E (launched ?s + 2 * i + 1) = Returns (Pair 0 v))
            \<and> status_at ?E (loaded ?s + 2 * i + 1) ''T-001'' = Returns (Some ''request_changes''))"
    by (simp add: alternating_exit alternating_status start_def)
  from changes_requested_budget[of 0 3 ?E ?s "''T-001''" ?p "[''T-002'']" None] h
  obtain s' where r: "run_from ?E ?p 3 ''T-001'' [''T-002''] 0 None ?s = (Returns 1, s')"
    and l: "launched s' = launched ?s + 2 * nat (3 - 0)"
    and n: "length (rounds_of ''executor'' ''T-001'' (trace s'))
               = length (rounds_of ''executor'' ''T-001'' (trace ?s)) + nat (3 - 0)"
    by blast
  from r have rs: "run_scheduler ?E [''T-001'', ''T-002''] ?p 3 start = (Returns 1, s')"
    by (simp only: run_scheduler_def run_tasks_Cons)
  have f1: "fst (run_scheduler ?E [''T-001'', ''T-002''] ?p 3 start) = Returns 1"
    by (simp only: rs fst_conv)
  from n have n': "length (rounds_of ''executor'' ''T-001'' (trace s')) = 3"
    by (simp add: start_def)
  from l have l': "launched s' = 6" by (simp add: start_def)
  have f2: "length (rounds_of ''executor'' ''T-001''
        (trace (snd (run_scheduler ?E [''T-001'', ''T-002''] ?p 3 start)))) = 3"
    by (simp only: rs snd_conv n')
  have f3: "launched (snd (run_scheduler ?E [''T-001'', ''T-002''] ?p 3 start)) = 6"
    by (simp only: rs snd_conv l')
  have f4: "list_all (\<lambda>i. round_exit ?E i = Returns (Pair 0 None)) [0, 1, 2, 3, 4, 5]"
    by (simp add: alternating_exit)
  have f5: "list_all (\<lambda>i. status_at ?E i ''T-001''
                       = Returns (Some (if even i then ''ready_for_review'' else ''request_changes'')))
        [0, 1, 2, 3, 4, 5]"
    by (simp add: alternating_status)
  from f1 f2 f3 f4 f5 show ?thesis by simp
qed

lemma feedback_scan_append:
  "feedback_scan repo q (xs @ ys)
     = (case feedback_scan repo q xs of None \<Rightarrow> None | Some q' \<Rightarrow> feedback_scan repo q' ys)"
proof (induction xs arbitrary: q)
  case Nil
  then show ?case by simp
next
  case (Cons a xs)
  then show ?case by (cases a) (auto split: option.splits)
qed

lemma feedback_scan_no_executor:
  "\<forall>t'. rounds_of ''executor'' t' acts = [] \<Longrightarrow> \<exists>q'. feedback_scan repo q acts = Some q'"
proof (induction acts arbitrary: q)
  case Nil
  then show ?case by simp
next
  case (Cons a acts)
  show ?case
  proof (cases a)
    case (Codex p tk r)
    show ?thesis
    proof (cases tk)
      case None
      with Cons Codex show ?thesis by simp
    next
      case (Some task)
      from Cons.prems have "rounds_of ''executor'' task (a # acts) = []" by blast
      with Codex Some have ne: "r \<noteq> Some ''executor''"
        by (auto split: if_splits)
      from Cons.prems Codex have "\<forall>t'. rounds_of ''executor'' t' acts = []"
        by (auto split: if_splits)
      from Cons.IH[OF this] Codex Some ne show ?thesis by simp
    qed
  next
    case (Write h w)
    with Cons show ?thesis by simp
  next
    case (Load path)
    with Cons show ?thesis by simp
  next
    case (Status tk v)
    with Cons show ?thesis by simp
  next
    case (IMessage x)
    with Cons show ?thesis by simp
  qed
qed

lemma executor_prompt_None:
  "\<not> nonempty fb \<Longrightarrow> build_executor_prompt repo t fb = build_executor_prompt repo t None"
  by (auto simp: build_executor_prompt_def nonempty_def split: option.splits)

lemma one_round_scan:
  assumes o: "one_round E path m t r fb s = (res, s')"
    and q: "nonempty fb \<longrightarrow> q = Changes t"
  shows "\<exists>new q'. calls (trace s') = calls (trace s) @ new
           \<and> feedback_scan (cwd E) q new = Some q'
           \<and> (\<forall>f. res = Returns (Continue f) \<longrightarrow> q' = Changes t \<and> nonempty (Some f))"
proof -
  from one_round_shape[OF o] obtain more where
    c: "calls (trace s') = calls (trace s)
             @ Codex (build_executor_prompt (cwd E) t fb) (Some t) (Some ''executor'') # more"
    and n: "\<forall>t'. rounds_of ''executor'' t' more = []"
    and k: "\<forall>f. res = Returns (Continue f) \<longrightarrow>
                 f \<noteq> [] \<and> r + 1 < m
                 \<and> (\<exists>x p z. more = [Load path, Status t (Some ''ready_for_review''), IMessage x,
                                      Codex p (Some t) (Some ''reviewer''),
                                      Load path, Status t (Some ''request_changes''), IMessage z])"
    by blast
  from q have pass: "build_executor_prompt (cwd E) t fb = build_executor_prompt (cwd E) t None
      \<or> q = Changes t"
    by (auto dest: executor_prompt_None)
  from feedback_scan_no_executor[OF n, of "cwd E" Idle] obtain q' where
    q': "feedback_scan (cwd E) Idle more = Some q'" by blast
  have "\<forall>f. res = Returns (Continue f) \<longrightarrow> q' = Changes t \<and> nonempty (Some f)"
  proof (intro allI impI)
    fix f assume "res = Returns (Continue f)"
    with k obtain x p z where "f \<noteq> []"
      and "more = [Load path, Status t (Some ''ready_for_review''), IMessage x,
                   Codex p (Some t) (Some ''reviewer''),
                   Load path, Status t (Some ''request_changes''), IMessage z]"
      by blast
    with q' show "q' = Changes t \<and> nonempty (Some f)" by (simp add: nonempty_def)
  qed
  moreover from pass q'
  have "feedback_scan (cwd E) q
          (Codex (build_executor_prompt (cwd E) t fb) (Some t) (Some ''executor'') # more) = Some q'"
    by auto
  ultimately show ?thesis using c by blast
qed

lemma task_loop_scan:
  "task_loop E path m t r fb s = (res, s') \<Longrightarrow> nonempty fb \<longrightarrow> q = Changes t \<Longrightarrow>
     \<exists>new q'. calls (trace s') = calls (trace s) @ new \<and> feedback_scan (cwd E) q new = Some q'"
proof (induction E path m t r fb s arbitrary: q rule: task_loop.induct)
  case (1 E path m t r fb s)
  show ?case
  proof (cases "r < m")
    case False
    with "1.prems" have "s' = s" by (simp add: task_loop.simps[of E path m t r fb s])
    then have "calls (trace s') = calls (trace s) @ [] \<and> feedback_scan (cwd E) q [] = Some q"
      by simp
    then show ?thesis by blast
  next
    case True
    obtain res1 s1 where o: "one_round E path m t r fb s = (res1, s1)"
      by (cases "one_round E path m t r fb s") auto
    from one_round_scan[OF o "1.prems"(2)] obtain new1 q1 where
      c1: "calls (trace s1) = calls (trace s) @ new1"
      and f1: "feedback_scan (cwd E) q new1 = Some q1"
      and k1: "\<forall>f. res1 = Returns (Continue f) \<longrightarrow> q1 = Changes t \<and> nonempty (Some f)"
      by blast
    show ?thesis
    proof (cases "\<exists>f. res1 = Returns (Continue f)")
      case False
      with "1.prems" True o have "s' = s1"
        by (auto simp: task_loop.simps[of E path m t r fb s] split: outcome.splits step.splits)
      with c1 f1 show ?thesis by blast
    next
      case c: True
      then obtain f where f: "res1 = Returns (Continue f)" by blast
      with "1.prems" True o
      have t: "task_loop E path m t (r + 1) (Some f) s1 = (res, s')"
        by (simp add: task_loop.simps[of E path m t r fb s])
      from k1 f have "nonempty (Some f) \<longrightarrow> q1 = Changes t" by simp
      from "1.IH"[OF True o[symmetric] f refl t this] obtain new2 q2 where
        c2: "calls (trace s') = calls (trace s1) @ new2"
        and f2: "feedback_scan (cwd E) q1 new2 = Some q2"
        by blast
      from c1 c2 have "calls (trace s') = calls (trace s) @ (new1 @ new2)" by simp
      moreover from f1 f2 have "feedback_scan (cwd E) q (new1 @ new2) = Some q2"
        by (simp add: feedback_scan_append)
      ultimately show ?thesis by blast
    qed
  qed
qed

lemma run_tasks_scan:
  "run_tasks E path m ts s = (res, s') \<Longrightarrow>
     \<exists>new q'. calls (trace s') = calls (trace s) @ new \<and> feedback_scan (cwd E) q new = Some q'"
proof (induction ts arbitrary: s q)
  case Nil
  then have "calls (trace s') = calls (trace s) @ [] \<and> feedback_scan (cwd E) q [] = Some q"
    by simp
  then show ?case by blast
next
  case (Cons t ts)
  let ?s0 = "print_out (''Starting task '' @ t) s"
  obtain res1 s1 where l: "task_loop E path m t 0 None ?s0 = (res1, s1)"
    by (cases "task_loop E path m t 0 None ?s0") auto
  have "nonempty None \<longrightarrow> q = Changes t" by (simp add: nonempty_def)
  from task_loop_scan[OF l this] obtain new1 q1 where
    c1: "calls (trace s1) = calls (trace s) @ new1"
    and f1: "feedback_scan (cwd E) q new1 = Some q1"
    by auto
  show ?case
  proof (cases "res1 = Returns None")
    case False
    with Cons.prems l have "s' = s1"
      by (auto split: outcome.splits option.splits)
    with c1 f1 show ?thesis by blast
  next
    case True
    with Cons.prems l have "run_tasks E path m ts s1 = (res, s')" by simp
    from Cons.IH[OF this, of q1] obtain new2 q2 where
      c2: "calls (trace s') = calls (trace s1) @ new2"
      and f2: "feedback_scan (cwd E) q1 new2 = Some q2"
      by blast
    from c1 c2 have "calls (trace s') = calls (trace s) @ (new1 @ new2)" by simp
    moreover from f1 f2 have "feedback_scan (cwd E) q (new1 @ new2) = Some q2"
      by (simp add: feedback_scan_append)
    ultimately show ?thesis by blast
  qed
qed

lemma run_tasks_first:
  assumes "0 < m"
  shows "\<exists>more. calls (trace (snd (run_tasks E path m (t # rest) s)))
           = calls (trace s)
               @ Codex (build_executor_prompt (cwd E) t None) (Some t) (Some ''executor'') # more"
proof -
  define s0 where "s0 = print_out (''Starting task '' @ t) s"
  have cs0: "calls (trace s0) = calls (trace s)" by (simp add: s0_def)
  obtain res1 s1 where o: "one_round E path m t 0 None s0 = (res1, s1)"
    by (cases "one_round E path m t 0 None s0") auto
  from one_round_shape[OF o] obtain more1 where
    c1: "calls (trace s1) = calls (trace s)
             @ Codex (build_executor_prompt (cwd E) t None) (Some t) (Some ''executor'') # more1"
    using cs0 by auto
  obtain res2 s2 where l: "task_loop E path m t 0 None s0 = (res2, s2)"
    by (cases "task_loop E path m t 0 None s0") auto
  have "\<exists>new. calls (trace s2) = calls (trace s1) @ new"
  proof (cases "\<exists>f. res1 = Returns (Continue f)")
    case False
    with l assms o have "s2 = s1"
      by (auto simp: task_loop.simps[of E path m t 0 None s0] split: outcome.splits step.splits)
    then show ?thesis by simp
  next
    case True
    then obtain f where "res1 = Returns (Continue f)" by blast
    with l assms o have "task_loop E path m t (0 + 1) (Some f) s1 = (res2, s2)"
      by (simp add: task_loop.simps[of E path m t 0 None s0])
    from task_loop_scan[OF this, of "Changes t"] show ?thesis by blast
  qed
  then obtain new2 where c2: "calls (trace s2) = calls (trace s1) @ new2" by blast
  obtain res3 s3 where r: "run_tasks E path m (t # rest) s = (res3, s3)"
    by (cases "run_tasks E path m (t # rest) s") auto
  have "\<exists>new. calls (trace s3) = calls (trace s2) @ new"
  proof (cases "res2 = Returns None")
    case False
    with r l have "s3 = s2" by (auto simp: s0_def split: outcome.splits option.splits)
    then show ?thesis by simp
  next
    case True
    with r l have "run_tasks E path m rest s2 = (res3, s3)" by (simp add: s0_def)
    from run_tasks_scan[OF this, of Idle] show ?thesis by blast
  qed
  then obtain new3 where c3: "calls (trace s3) = calls (trace s2) @ new3" by blast
  from c1 c2 c3 r show ?thesis by simp
qed

text \<open>
  C9. In every run of the scheduler the calls it makes pass the feedback scan: an
  executor round whose prompt is not the prompt without feedback comes right after a
  reviewer round of the same task whose following status read gave
  \<^verbatim>\<open>request_changes\<close>. The first executor round of every task the run reaches has the
  prompt without feedback. The executor prompt is the base text, followed by the
  reviewer-feedback block exactly when the feedback is present and not empty. The loop
  body continues only with a non-empty feedback and after that status.
\<close>

theorem feedback_only_after_changes:
  "(run_scheduler E ts path m s = (res, s')
      \<longrightarrow> (\<exists>new q'. calls (trace s') = calls (trace s) @ new
                    \<and> feedback_scan (cwd E) Idle new = Some q'))
   \<and> (0 < m \<and> run_tasks E path m pre s = (Returns 0, s1)
      \<longrightarrow> (\<exists>more. calls (trace (snd (run_scheduler E (pre @ t # rest) path m s)))
                    = calls (trace s1)
                        @ Codex (build_executor_prompt (cwd E) t None) (Some t) (Some ''executor'')
                        # more))
   \<and> build_executor_prompt repo t fb
       = (if nonempty fb then executor_base repo t @ nl @ ''Reviewer feedback:'' @ nl @ the fb
          else executor_base repo t)
   \<and> (build_executor_prompt repo t fb = build_executor_prompt repo t None) = (\<not> nonempty fb)
   \<and> (one_round E path m t r fb s0 = (Returns (Continue f), s3)
      \<longrightarrow> f \<noteq> []
          \<and> (\<exists>x p z. calls (trace s3) = calls (trace s0)
                @ [Codex (build_executor_prompt (cwd E) t fb) (Some t) (Some ''executor''),
                   Load path, Status t (Some ''ready_for_review''), IMessage x,
                   Codex p (Some t) (Some ''reviewer''),
                   Load path, Status t (Some ''request_changes''), IMessage z]))"
proof (intro conjI impI)
  assume "run_scheduler E ts path m s = (res, s')"
  then have "run_tasks E path m ts s = (res, s')" by (simp add: run_scheduler_def)
  from run_tasks_scan[OF this, of Idle]
  show "\<exists>new q'. calls (trace s') = calls (trace s) @ new
                    \<and> feedback_scan (cwd E) Idle new = Some q'" .
next
  assume a: "0 < m \<and> run_tasks E path m pre s = (Returns 0, s1)"
  then have "run_scheduler E (pre @ t # rest) path m s = run_tasks E path m (t # rest) s1"
    by (simp add: run_scheduler_def run_tasks_append)
  with run_tasks_first[of m E path t rest s1] a
  show "\<exists>more. calls (trace (snd (run_scheduler E (pre @ t # rest) path m s)))
                    = calls (trace s1)
                        @ Codex (build_executor_prompt (cwd E) t None) (Some t) (Some ''executor'')
                        # more"
    by simp
next
  show "build_executor_prompt repo t fb
       = (if nonempty fb then executor_base repo t @ nl @ ''Reviewer feedback:'' @ nl @ the fb
          else executor_base repo t)"
    by (auto simp: build_executor_prompt_def nonempty_def split: option.splits)
next
  show "(build_executor_prompt repo t fb = build_executor_prompt repo t None) = (\<not> nonempty fb)"
    by (auto simp: build_executor_prompt_def nonempty_def nl_def split: option.splits)
next
  assume o: "one_round E path m t r fb s0 = (Returns (Continue f), s3)"
  from one_round_shape[OF o] show "f \<noteq> []" by blast
next
  assume o: "one_round E path m t r fb s0 = (Returns (Continue f), s3)"
  from one_round_shape[OF o]
  show "\<exists>x p z. calls (trace s3) = calls (trace s0)
                @ [Codex (build_executor_prompt (cwd E) t fb) (Some t) (Some ''executor''),
                   Load path, Status t (Some ''ready_for_review''), IMessage x,
                   Codex p (Some t) (Some ''reviewer''),
                   Load path, Status t (Some ''request_changes''), IMessage z]"
    by auto
qed

theorem feedback_only_after_changes_witness:
  "feedback_scan ''/repo'' Idle
     (calls (trace (snd (run_scheduler
        (alternating [(''T-001'', ''ready_for_review'')] [(''T-001'', ''request_changes'')])
        [''T-001''] ''agents/context/tasks_state.yaml'' 3 start)))) \<noteq> None
   \<and> (0::int) < 3
   \<and> run_tasks (alternating [(''T-001'', ''ready_for_review'')] [(''T-001'', ''request_changes'')])
        ''agents/context/tasks_state.yaml'' 3 [] start = (Returns 0, start)
   \<and> (\<exists>more. calls (trace (snd (run_scheduler
          (alternating [(''T-001'', ''ready_for_review'')] [(''T-001'', ''request_changes'')])
          [''T-001''] ''agents/context/tasks_state.yaml'' 3 start)))
        = Codex (build_executor_prompt ''/repo'' ''T-001'' None) (Some ''T-001'') (Some ''executor'')
          # more)
   \<and> nonempty (Some ''No reviewer summary captured.'')
   \<and> build_executor_prompt ''/repo'' ''T-001'' (Some ''No reviewer summary captured.'')
       \<noteq> build_executor_prompt ''/repo'' ''T-001'' None
   \<and> fst (one_round (alternating [(''T-001'', ''ready_for_review'')] [(''T-001'', ''request_changes'')])
        ''agents/context/tasks_state.yaml'' 3 ''T-001'' 0 None
        (print_out ''Starting task T-001'' start))
       = Returns (Continue ''No reviewer summary captured.'')
   \<and> (\<exists>x p z. calls (trace (snd (one_round
          (alternating [(''T-001'', ''ready_for_review'')] [(''T-001'', ''request_changes'')])
          ''agents/context/tasks_state.yaml'' 3 ''T-001'' 0 None
          (print_out ''Starting task T-001'' start))))
        = [Codex (build_executor_prompt ''/repo'' ''T-001'' None) (Some ''T-001'') (Some ''executor''),
           Load ''agents/context/tasks_state.yaml'',
           Status ''T-001'' (Some ''ready_for_review''), IMessage x,
           Codex p (Some ''T-001'') (Some ''reviewer''),
           Load ''agents/context/tasks_state.yaml'',
           Status ''T-001'' (Some ''request_changes''), IMessage z])"
proof -
  let ?E = "alternating [(''T-001'', ''ready_for_review'')] [(''T-001'', ''request_changes'')]"
  let ?p = "''agents/context/tasks_state.yaml''"
  let ?s0 = "print_out ''Starting task T-001'' start"
  let ?run = "run_scheduler ?E [''T-001''] ?p 3 start"
  let ?o = "one_round ?E ?p 3 ''T-001'' 0 None ?s0"
  have cwd: "cwd ?E = ''/repo''" by (simp add: alternating_def sample_env_def)
  have tr: "calls (trace start) = []" by (simp add: start_def)
  have h: "round_exit ?E (launched ?s0) = Returns (Pair 0 None)"
    "status_at ?E (loaded ?s0) ''T-001'' = Returns (Some ''ready_for_review'')"
    "round_exit ?E (Suc (launched ?s0)) = Returns (Pair 0 None)"
    "status_at ?E (Suc (loaded ?s0)) ''T-001'' = Returns (Some ''request_changes'')"
    by (simp_all add: alternating_exit alternating_status start_def)
  from one_round_result[OF h, of ?p 3 0 None]
  have o: "fst ?o = Returns (Continue ''No reviewer summary captured.'')"
    by (auto simp: nonempty_def)
  then have o': "?o = (Returns (Continue ''No reviewer summary captured.''), snd ?o)"
    by (simp add: prod_eq_iff)
  note A = feedback_only_after_changes[where E="?E" and ts="[''T-001'']" and path="?p" and m=3
      and s=start and res="fst ?run" and s'="snd ?run" and pre="[]" and ?s1.0=start
      and t="''T-001''" and rest="[]" and repo="''/repo''"
      and fb="Some ''No reviewer summary captured.''" and r=0
      and f="''No reviewer summary captured.''" and ?s0.0="?s0" and ?s3.0="snd ?o"]
  note B = feedback_only_after_changes[where E="?E" and ts="[''T-001'']" and path="?p" and m=3
      and s=start and res="fst ?run" and s'="snd ?run" and pre="[]" and ?s1.0=start
      and t="''T-001''" and rest="[]" and repo="''/repo''"
      and fb=None and r=0
      and f="''No reviewer summary captured.''" and ?s0.0="?s0" and ?s3.0="snd ?o"]
  have f1: "feedback_scan ''/repo'' Idle (calls (trace (snd ?run))) \<noteq> None"
    using A cwd tr by auto
  have f2: "run_tasks ?E ?p 3 [] start = (Returns 0, start)" by simp
  have f3: "\<exists>more. calls (trace (snd ?run))
        = Codex (build_executor_prompt ''/repo'' ''T-001'' None) (Some ''T-001'') (Some ''executor'')
          # more"
    using A f2 cwd tr by auto
  have f4: "nonempty (Some ''No reviewer summary captured.'')" by (simp add: nonempty_def)
  have f5: "build_executor_prompt ''/repo'' ''T-001'' (Some ''No reviewer summary captured.'')
       \<noteq> build_executor_prompt ''/repo'' ''T-001'' None"
    using A f4 by blast
  have f6: "\<exists>x p z. calls (trace (snd ?o))
        = [Codex (build_executor_prompt ''/repo'' ''T-001'' None) (Some ''T-001'') (Some ''executor''),
           Load ?p, Status ''T-001'' (Some ''ready_for_review''), IMessage x,
           Codex p (Some ''T-001'') (Some ''reviewer''),
           Load ?p, Status ''T-001'' (Some ''request_changes''), IMessage z]"
    using B o' cwd tr by (auto simp: start_def)
  from f1 f2 f3 f4 f5 o f6 show ?thesis by (intro conjI) simp_all
qed

lemma field_default: "field kvs k PNone = PStr x \<Longrightarrow> field kvs k d = PStr x"
  by (cases "map_of kvs k") (simp_all add: field_def)

lemma field_Some: "map_of kvs k = Some v \<Longrightarrow> field kvs k d = v"
  by (simp add: field_def)

lemma field_None: "map_of kvs k = None \<Longrightarrow> field kvs k d = d"
  by (simp add: field_def)

lemma field_fold [simp]: "(case map_of kvs k of None \<Rightarrow> d | Some v \<Rightarrow> v) = field kvs k d"
  by (simp add: field_def)

lemma text_or_empty_ok:
  "text_ok item \<Longrightarrow> \<exists>x. text_or_empty (PDict item) = Inr x"
  by (auto simp: text_ok_def text_or_empty_def split: pyval.splits)

lemma text_or_empty_not_ok:
  "\<not> text_ok item \<Longrightarrow> text_or_empty (PDict item) = Inl AttributeError"
  by (auto simp: text_ok_def text_or_empty_def split: pyval.splits)

lemma well_formed_format:
  assumes "well_formed payload"
  shows "\<exists>text tag. format_event fmt payload = Inr (text, tag)"
proof -
  from assms obtain kvs where p: "payload = PDict kvs"
    by (cases payload) (auto simp: well_formed_def)
  show ?thesis
  proof (cases "field kvs ''type'' (PStr ''unknown'') = PStr ''item.started''")
    case True
    with assms p obtain item where "field kvs ''item'' (PDict []) = PDict item"
      by (auto simp: well_formed_def is_object_def split: pyval.splits)
    with True p show ?thesis by (simp add: format_event_def format_started_def)
  next
    case ns: False
    show ?thesis
    proof (cases "field kvs ''type'' (PStr ''unknown'') = PStr ''item.completed''")
      case True
      with assms p ns obtain item where i: "field kvs ''item'' (PDict []) = PDict item"
        and t: "field item ''type'' (PStr ''unknown'') = PStr ''reasoning''
                  \<or> field item ''type'' (PStr ''unknown'') = PStr ''agent_message''
                \<longrightarrow> text_ok item"
        by (auto simp: well_formed_def split: pyval.splits if_splits)
      show ?thesis
      proof (cases "field item ''type'' (PStr ''unknown'') = PStr ''reasoning''
                  \<or> field item ''type'' (PStr ''unknown'') = PStr ''agent_message''")
        case False
        with True ns p i show ?thesis by (simp add: format_event_def format_completed_def)
      next
        case c: True
        with t text_or_empty_ok obtain x where "text_or_empty (PDict item) = Inr x" by blast
        with c True ns p i show ?thesis by (auto simp: format_event_def format_completed_def)
      qed
    next
      case nc: False
      show ?thesis
      proof (cases "field kvs ''type'' (PStr ''unknown'') = PStr ''turn.completed''")
        case True
        with assms p ns nc obtain usage where "field kvs ''usage'' (PDict []) = PDict usage"
          by (auto simp: well_formed_def is_object_def split: pyval.splits)
        with True ns nc p show ?thesis by (simp add: format_event_def format_turn_def)
      next
        case False
        with ns nc p show ?thesis by (simp add: format_event_def)
      qed
    qed
  qed
qed

lemma format_returns_agent_text:
  assumes "format_event fmt payload = Inr (text, tag)"
  shows "\<exists>a. agent_text_of payload = Inr a"
proof -
  from assms obtain kvs where p: "payload = PDict kvs"
    by (cases payload) (auto simp: format_event_def)
  show ?thesis
  proof (cases "field kvs ''type'' PNone = PStr ''item.completed''")
    case False
    with p show ?thesis by (simp add: agent_text_of_def)
  next
    case True
    then have ty: "field kvs ''type'' (PStr ''unknown'') = PStr ''item.completed''"
      by (rule field_default)
    with assms p obtain item where i: "field kvs ''item'' (PDict []) = PDict item"
      by (cases "field kvs ''item'' (PDict [])")
        (auto simp: format_event_def format_completed_def)
    show ?thesis
    proof (cases "field item ''type'' PNone = PStr ''agent_message''")
      case False
      with True p i show ?thesis by (simp add: agent_text_of_def)
    next
      case am: True
      then have "field item ''type'' (PStr ''unknown'') = PStr ''agent_message''"
        by (rule field_default)
      with assms p ty i obtain x where "text_or_empty (PDict item) = Inr x"
        by (auto simp: format_event_def format_completed_def split: sum.splits if_splits)
      with True am p i show ?thesis by (simp add: agent_text_of_def)
    qed
  qed
qed

lemma render_line_well_formed:
  assumes "strip line \<noteq> []" and "loads (strip line) = Some payload" and "well_formed payload"
  shows "\<exists>text tag summary. render_line loads fmt line = Inr (text, tag, summary)
           \<and> tag \<in> {''default'', ''agent'', ''reasoning''}"
proof -
  from well_formed_format[OF assms(3), of fmt] obtain shown_text tag where
    f: "format_event fmt payload = Inr (shown_text, tag)" by blast
  from format_returns_agent_text[OF f] obtain a where g: "agent_text_of payload = Inr a" by blast
  from assms f g have "render_line loads fmt line = Inr (shown_text, tag, a)"
    by (simp add: render_line_def)
  with render_line_tag show ?thesis by blast
qed

text \<open>
  Decoded values that are not well formed are the ones on which the renderer does not
  return.
\<close>

lemma not_well_formed_format:
  assumes "\<not> well_formed payload"
  shows "format_event fmt payload = Inl AttributeError"
proof (cases payload)
  case p: (PDict kvs)
  show ?thesis
  proof (cases "field kvs ''type'' (PStr ''unknown'') = PStr ''item.completed''")
    case False
    with assms p show ?thesis
      by (auto simp: well_formed_def format_event_def format_started_def format_turn_def
          is_object_def split: if_splits pyval.splits)
  next
    case True
    show ?thesis
    proof (cases "is_object (field kvs ''item'' (PDict []))")
      case False
      with True p show ?thesis
        by (auto simp: format_event_def format_completed_def is_object_def split: pyval.splits)
    next
      case io: True
      then obtain item where i: "field kvs ''item'' (PDict []) = PDict item"
        by (auto simp: is_object_def split: pyval.splits)
      with assms True p
      have "(field item ''type'' (PStr ''unknown'') = PStr ''reasoning''
               \<or> field item ''type'' (PStr ''unknown'') = PStr ''agent_message'')
            \<and> \<not> text_ok item"
        by (auto simp: well_formed_def split: if_splits)
      with True i p text_or_empty_not_ok[of item] show ?thesis
        by (auto simp: format_event_def format_completed_def)
    qed
  qed
qed (simp_all add: format_event_def)

lemma render_line_not_well_formed:
  "strip line \<noteq> [] \<Longrightarrow> loads (strip line) = Some payload \<Longrightarrow> \<not> well_formed payload
     \<Longrightarrow> render_line loads fmt line = Inl AttributeError"
  by (simp add: render_line_def not_well_formed_format)
lemma text_or_empty_string:
  "map_of item ''text'' = Some (PStr t) \<Longrightarrow> text_or_empty (PDict item) = Inr (strip t)"
  by (simp add: text_or_empty_def field_Some strip_def del: field_fold)

lemma text_or_empty_falsy:
  "(case map_of item ''text'' of None \<Rightarrow> True | Some v \<Rightarrow> \<not> truthy v)
     \<Longrightarrow> text_or_empty (PDict item) = Inr []"
  by (cases "map_of item ''text''") (simp_all add: text_or_empty_def field_def del: field_fold)

lemma text_or_empty_Inr:
  assumes "text_or_empty (PDict item) = Inr y"
  shows "(\<exists>t. map_of item ''text'' = Some (PStr t) \<and> y = strip t)
         \<or> ((case map_of item ''text'' of None \<Rightarrow> True | Some v \<Rightarrow> \<not> truthy v) \<and> y = [])"
proof (cases "map_of item ''text''")
  case None
  with assms show ?thesis by (simp add: text_or_empty_def field_def del: field_fold)
next
  case (Some v)
  with assms show ?thesis
    by (cases v) (auto simp: text_or_empty_def field_def simp del: field_fold split: if_splits)
qed

lemma agent_shape_well_formed:
  assumes "map_of kvs ''type'' = Some (PStr ''item.completed'')"
    and "map_of kvs ''item'' = Some (PDict item)"
    and "map_of item ''type'' = Some (PStr ''agent_message'')"
    and "text_or_empty (PDict item) = Inr x"
  shows "well_formed (PDict kvs)"
proof -
  have "text_ok item"
  proof (rule ccontr)
    assume "\<not> text_ok item"
    from text_or_empty_not_ok[OF this] assms(4) show False by simp
  qed
  with assms(1-3) show ?thesis
    by (simp add: well_formed_def field_Some)
qed

text \<open>
  C2 (corrected). The tag of a completed agent-message record is the string
  \<^verbatim>\<open>agent\<close>, which \<open>colorize\<close> tests for; no path returns \<^verbatim>\<open>agent_message\<close>.
  \<open>render_line\<close> returns on every blank line (empty text, tag \<^verbatim>\<open>default\<close>), on every line
  that does not decode (the trimmed line, tag \<^verbatim>\<open>default\<close>) and on every line that decodes
  to a well-formed record, and whenever it returns its tag is one of \<^verbatim>\<open>default\<close>,
  \<^verbatim>\<open>agent\<close> and \<^verbatim>\<open>reasoning\<close>. A record of type \<^verbatim>\<open>item.completed\<close> whose item is an
  \<^verbatim>\<open>agent_message\<close> is well formed when its text is a string, absent or falsy; it is
  rendered with tag \<^verbatim>\<open>agent\<close> and yields the trimmed text as summary (the empty string for
  an absent or falsy text), and no other line yields a summary.
\<close>

theorem render_line_tag_and_summary:
  "(strip line = [] \<longrightarrow> render_line loads fmt line = Inr ([], ''default'', None))
   \<and> (strip line \<noteq> [] \<and> loads (strip line) = None
        \<longrightarrow> render_line loads fmt line = Inr (strip line, ''default'', None))
   \<and> (strip line \<noteq> [] \<and> loads (strip line) = Some payload \<and> well_formed payload
        \<longrightarrow> (\<exists>shown_text tag summary.
               render_line loads fmt line = Inr (shown_text, tag, summary)
               \<and> tag \<in> {''default'', ''agent'', ''reasoning''}))
   \<and> (render_line loads fmt line = Inr (display, tag, summary)
        \<longrightarrow> tag \<in> {''default'', ''agent'', ''reasoning''})
   \<and> (strip line \<noteq> [] \<and> loads (strip line) = Some (PDict kvs)
        \<and> map_of kvs ''type'' = Some (PStr ''item.completed'')
        \<and> map_of kvs ''item'' = Some (PDict item)
        \<and> map_of item ''type'' = Some (PStr ''agent_message'')
        \<and> map_of item ''text'' = Some (PStr t)
        \<longrightarrow> well_formed (PDict kvs)
            \<and> render_line loads fmt line
                = Inr (if strip t \<noteq> [] then ''[agent] '' @ strip t else ''[agent]'', ''agent'',
                       Some (strip t)))
   \<and> (strip line \<noteq> [] \<and> loads (strip line) = Some (PDict kvs)
        \<and> map_of kvs ''type'' = Some (PStr ''item.completed'')
        \<and> map_of kvs ''item'' = Some (PDict item)
        \<and> map_of item ''type'' = Some (PStr ''agent_message'')
        \<and> (case map_of item ''text'' of None \<Rightarrow> True | Some v \<Rightarrow> \<not> truthy v)
        \<longrightarrow> well_formed (PDict kvs)
            \<and> render_line loads fmt line = Inr (''[agent]'', ''agent'', Some []))
   \<and> (render_line loads fmt line = Inr (display, tag, Some y)
        \<longrightarrow> tag = ''agent''
            \<and> (\<exists>kvs item. loads (strip line) = Some (PDict kvs)
                  \<and> map_of kvs ''type'' = Some (PStr ''item.completed'')
                  \<and> map_of kvs ''item'' = Some (PDict item)
                  \<and> map_of item ''type'' = Some (PStr ''agent_message'')
                  \<and> ((\<exists>t. map_of item ''text'' = Some (PStr t) \<and> y = strip t)
                       \<or> ((case map_of item ''text'' of None \<Rightarrow> True | Some v \<Rightarrow> \<not> truthy v)
                            \<and> y = []))))"
proof -
  have c1: "strip line = [] \<longrightarrow> render_line loads fmt line = Inr ([], ''default'', None)"
    by (simp add: render_line_def)
  have c2: "strip line \<noteq> [] \<and> loads (strip line) = None
        \<longrightarrow> render_line loads fmt line = Inr (strip line, ''default'', None)"
    by (simp add: render_line_def)
  have c3: "strip line \<noteq> [] \<and> loads (strip line) = Some payload \<and> well_formed payload
        \<longrightarrow> (\<exists>shown_text tag summary.
               render_line loads fmt line = Inr (shown_text, tag, summary)
               \<and> tag \<in> {''default'', ''agent'', ''reasoning''})"
    using render_line_well_formed[of line loads payload fmt] by blast
  have c4: "render_line loads fmt line = Inr (display, tag, summary)
        \<longrightarrow> tag \<in> {''default'', ''agent'', ''reasoning''}"
    using render_line_tag by blast
  have agent: "well_formed (PDict kvs)
      \<and> render_line loads fmt line
          = Inr (if x \<noteq> [] then ''[agent] '' @ x else ''[agent]'', ''agent'', Some x)"
    if a: "strip line \<noteq> []" "loads (strip line) = Some (PDict kvs)"
      "map_of kvs ''type'' = Some (PStr ''item.completed'')"
      "map_of kvs ''item'' = Some (PDict item)"
      "map_of item ''type'' = Some (PStr ''agent_message'')"
      and x: "text_or_empty (PDict item) = Inr x" for x
  proof -
    from agent_shape_renders(1)[OF a(3-5) x, of fmt] agent_shape_renders(2)[OF a(3-5) x] a(1,2)
    have "render_line loads fmt line
          = Inr (if x \<noteq> [] then ''[agent] '' @ x else ''[agent]'', ''agent'', Some x)"
      by (simp add: render_line_def)
    with agent_shape_well_formed[OF a(3-5) x] show ?thesis by blast
  qed
  have c5: "strip line \<noteq> [] \<and> loads (strip line) = Some (PDict kvs)
        \<and> map_of kvs ''type'' = Some (PStr ''item.completed'')
        \<and> map_of kvs ''item'' = Some (PDict item)
        \<and> map_of item ''type'' = Some (PStr ''agent_message'')
        \<and> map_of item ''text'' = Some (PStr t)
        \<longrightarrow> well_formed (PDict kvs)
            \<and> render_line loads fmt line
                = Inr (if strip t \<noteq> [] then ''[agent] '' @ strip t else ''[agent]'', ''agent'',
                       Some (strip t))"
    using agent[of "strip t"] text_or_empty_string[of item t] by blast
  have c6: "strip line \<noteq> [] \<and> loads (strip line) = Some (PDict kvs)
        \<and> map_of kvs ''type'' = Some (PStr ''item.completed'')
        \<and> map_of kvs ''item'' = Some (PDict item)
        \<and> map_of item ''type'' = Some (PStr ''agent_message'')
        \<and> (case map_of item ''text'' of None \<Rightarrow> True | Some v \<Rightarrow> \<not> truthy v)
        \<longrightarrow> well_formed (PDict kvs)
            \<and> render_line loads fmt line = Inr (''[agent]'', ''agent'', Some [])"
    using agent[of "[]"] text_or_empty_falsy[of item] by auto
  have c7: "render_line loads fmt line = Inr (display, tag, Some y)
        \<longrightarrow> tag = ''agent''
            \<and> (\<exists>kvs item. loads (strip line) = Some (PDict kvs)
                  \<and> map_of kvs ''type'' = Some (PStr ''item.completed'')
                  \<and> map_of kvs ''item'' = Some (PDict item)
                  \<and> map_of item ''type'' = Some (PStr ''agent_message'')
                  \<and> ((\<exists>t. map_of item ''text'' = Some (PStr t) \<and> y = strip t)
                       \<or> ((case map_of item ''text'' of None \<Rightarrow> True | Some v \<Rightarrow> \<not> truthy v)
                            \<and> y = [])))"
  proof
    assume "render_line loads fmt line = Inr (display, tag, Some y)"
    from render_line_summary_shape[OF this] obtain kvs item where
      "tag = ''agent''" "loads (strip line) = Some (PDict kvs)"
      "map_of kvs ''type'' = Some (PStr ''item.completed'')"
      "map_of kvs ''item'' = Some (PDict item)"
      "map_of item ''type'' = Some (PStr ''agent_message'')"
      "text_or_empty (PDict item) = Inr y"
      by blast
    with text_or_empty_Inr[of item y] show "tag = ''agent''
            \<and> (\<exists>kvs item. loads (strip line) = Some (PDict kvs)
                  \<and> map_of kvs ''type'' = Some (PStr ''item.completed'')
                  \<and> map_of kvs ''item'' = Some (PDict item)
                  \<and> map_of item ''type'' = Some (PStr ''agent_message'')
                  \<and> ((\<exists>t. map_of item ''text'' = Some (PStr t) \<and> y = strip t)
                       \<or> ((case map_of item ''text'' of None \<Rightarrow> True | Some v \<Rightarrow> \<not> truthy v)
                            \<and> y = [])))"
      by blast
  qed
  from c1 c2 c3 c4 c5 c6 c7 show ?thesis by (intro conjI)
qed
theorem render_line_tag_and_summary_witness:
  "strip nl = []
   \<and> render_line sample_loads_null str_scalar nl = Inr ([], ''default'', None)
   \<and> strip (''warn 1'' @ nl) \<noteq> []
   \<and> sample_loads_null (strip (''warn 1'' @ nl)) = None
   \<and> render_line sample_loads_null str_scalar (''warn 1'' @ nl) = Inr (''warn 1'', ''default'', None)
   \<and> sample_loads_null (strip (agent_line ''hello'')) = Some (agent_record ''hello'')
   \<and> well_formed (agent_record ''hello'')
   \<and> render_line sample_loads_null str_scalar (agent_line ''hello'')
       = Inr (''[agent] hello'', ''agent'', Some ''hello'')
   \<and> ''agent'' \<in> {''default'', ''agent'', ''reasoning''}
   \<and> sample_loads_null (strip null_text_line) = Some null_text_record
   \<and> \<not> truthy PNone
   \<and> well_formed null_text_record
   \<and> render_line sample_loads_null str_scalar null_text_line = Inr (''[agent]'', ''agent'', Some [])"
proof -
  let ?hello = "[(''type'', PStr ''agent_message''), (''text'', PStr ''hello'')]"
  let ?null = "[(''type'', PStr ''agent_message''), (''text'', PNone)]"
  have l1: "sample_loads_null (strip (''warn 1'' @ nl)) = None"
    and l2: "sample_loads_null (strip (agent_line ''hello''))
               = Some (PDict [(''type'', PStr ''item.completed''), (''item'', PDict ?hello)])"
    and l3: "sample_loads_null (strip null_text_line)
               = Some (PDict [(''type'', PStr ''item.completed''), (''item'', PDict ?null)])"
    and s1: "strip nl = []" and s2: "strip (''warn 1'' @ nl) = ''warn 1''"
    and s3: "strip (agent_line ''hello'') \<noteq> []" and s4: "strip null_text_line \<noteq> []"
    and s5: "strip ''hello'' = ''hello''"
    by (simp_all add: sample_loads_null_def sample_loads_def agent_line_def null_text_line_def
        agent_record_def null_text_record_def dq_def nl_def strip_def py_isspace_def)
  have m: "map_of [(''type'', PStr ''item.completed''), (''item'', PDict ?hello)] ''type''
             = Some (PStr ''item.completed'')"
    "map_of [(''type'', PStr ''item.completed''), (''item'', PDict ?hello)] ''item''
             = Some (PDict ?hello)"
    "map_of ?hello ''type'' = Some (PStr ''agent_message'')"
    "map_of ?hello ''text'' = Some (PStr ''hello'')"
    "map_of [(''type'', PStr ''item.completed''), (''item'', PDict ?null)] ''type''
             = Some (PStr ''item.completed'')"
    "map_of [(''type'', PStr ''item.completed''), (''item'', PDict ?null)] ''item''
             = Some (PDict ?null)"
    "map_of ?null ''type'' = Some (PStr ''agent_message'')"
    "case map_of ?null ''text'' of None \<Rightarrow> True | Some v \<Rightarrow> \<not> truthy v"
    by simp_all
  from render_line_tag_and_summary[where loads=sample_loads_null and fmt=str_scalar
      and line=nl, THEN conjunct1] s1
  have w1: "render_line sample_loads_null str_scalar nl = Inr ([], ''default'', None)" by blast
  from render_line_tag_and_summary[where loads=sample_loads_null and fmt=str_scalar
      and line="''warn 1'' @ nl", THEN conjunct2, THEN conjunct1] l1 s2
  have w2: "render_line sample_loads_null str_scalar (''warn 1'' @ nl)
      = Inr (''warn 1'', ''default'', None)" by simp
  from render_line_tag_and_summary[where loads=sample_loads_null and fmt=str_scalar
      and line="agent_line ''hello''"
      and kvs="[(''type'', PStr ''item.completed''), (''item'', PDict ?hello)]"
      and item="?hello" and t="''hello''",
      THEN conjunct2, THEN conjunct2, THEN conjunct2, THEN conjunct2, THEN conjunct1] l2 s3 m(1-4)
  have "well_formed (PDict [(''type'', PStr ''item.completed''), (''item'', PDict ?hello)])
      \<and> render_line sample_loads_null str_scalar (agent_line ''hello'')
          = Inr (if strip ''hello'' \<noteq> [] then ''[agent] '' @ strip ''hello'' else ''[agent]'',
                 ''agent'', Some (strip ''hello''))"
    by blast
  then have w3: "well_formed (agent_record ''hello'')
      \<and> render_line sample_loads_null str_scalar (agent_line ''hello'')
          = Inr (''[agent] hello'', ''agent'', Some ''hello'')"
    by (simp only: s5 agent_record_def) simp
  from render_line_tag_and_summary[where loads=sample_loads_null and fmt=str_scalar
      and line=null_text_line
      and kvs="[(''type'', PStr ''item.completed''), (''item'', PDict ?null)]"
      and item="?null",
      THEN conjunct2, THEN conjunct2, THEN conjunct2, THEN conjunct2, THEN conjunct2,
      THEN conjunct1] l3 s4 m(5-8)
  have "well_formed (PDict [(''type'', PStr ''item.completed''), (''item'', PDict ?null)])
      \<and> render_line sample_loads_null str_scalar null_text_line = Inr (''[agent]'', ''agent'', Some [])"
    by blast
  then have w4: "well_formed null_text_record
      \<and> render_line sample_loads_null str_scalar null_text_line = Inr (''[agent]'', ''agent'', Some [])"
    by (simp only: null_text_record_def)
  have l2': "sample_loads_null (strip (agent_line ''hello'')) = Some (agent_record ''hello'')"
    using l2 by (simp only: agent_record_def)
  have l3': "sample_loads_null (strip null_text_line) = Some null_text_record"
    using l3 by (simp only: null_text_record_def)
  have s2': "strip (''warn 1'' @ nl) \<noteq> []" using s2 by simp
  have tn: "\<not> truthy PNone" by simp
  have ag: "''agent'' \<in> {''default'', ''agent'', ''reasoning''}" by simp
  from s1 w1 s2' l1 w2 l2' w3 ag l3' tn w4 show ?thesis by (intro conjI) blast+
qed

end
